theory Spec2Isabelle
  imports Complex_Main "HOL-Library.Word"
begin

unbundle bit_operations_syntax

section \<open>The font table generator (waveshareFontGenerator)\<close>

text \<open>
  The repository holds two versions of one Go program, each a single \<open>main\<close>:
  \<^item> variant A (\<open>src/main.go\<close>) derives the cell height and the vertical origin from the
    font metrics (flags \<open>width\<close>, \<open>reducedHeight\<close>, \<open>ppem\<close>, \<open>font\<close>);
  \<^item> variant B (\<open>src/unnamed/part_000\<close>) takes cell height and origin from flags
    (\<open>width\<close>, \<open>height\<close>, \<open>ppem\<close>, \<open>xoffset\<close>, \<open>yoffset\<close>, \<open>font\<close>, \<open>debug\<close>).

  Both parse the flags, read and parse the font file, and then, for the runes 32 to 126,
  look the glyph up, load its outline, rasterise it into an alpha image, threshold every
  pixel at 64, pack each row into bytes and print the row as hexadecimal bytes.

  What \<open>main\<close> calls but the repository does not contain is a parameter of the model:
  the result of the flag parser, the file system, the font backend (\<open>sfnt\<close>), the
  conversion to \<open>float32\<close> and the rasteriser (\<open>vector\<close>, \<open>image\<close>). The bit writer
  (\<open>bitio\<close>) and \<open>fmt\<close>'s verbs \<open>%d\<close>, \<open>%c\<close>, \<open>%.2X\<close> are written out.
\<close>

subsection \<open>Go integers\<close>

text \<open>
  Go's \<open>int\<close> is taken as 64 bits wide: the result of an arithmetic operation is reduced
  to the signed 64-bit range. Division of integers truncates towards zero.
\<close>

definition wrap64 :: "int \<Rightarrow> int" where
  "wrap64 x = signed_take_bit 63 x"

definition go_quot :: "int \<Rightarrow> int \<Rightarrow> int" where
  "go_quot a b = sgn a * sgn b * (\<bar>a\<bar> div \<bar>b\<bar>)"

type_synonym byte = "8 word"

text \<open>\<open>fixed.Int26_6\<close> is an \<open>int32\<close> counting 1/64 of a pixel.\<close>

type_synonym int26_6 = "32 word"

text \<open>
  \<open>Int26_6.Ceil\<close> of \<open>golang.org/x/image/math/fixed\<close>:
  \<^verbatim>\<open>func (x Int26_6) Ceil() int { return int((x + 0x3f) >> 6) }\<close>
  with the addition in 32 bits and an arithmetic shift.
\<close>

definition Ceil :: "int26_6 \<Rightarrow> int" where
  "Ceil x = sint (signed_drop_bit 6 (x + 0x3f))"

subsection \<open>Configuration\<close>

text \<open>
  The global \<open>conf\<close> struct, filled by the flag parser. The three flags the variants
  share are the base record; each variant extends it with its own.
\<close>

record conf =
  Width :: int
  PPEM :: int
  Font :: string

record conf_A = conf +
  ReduceHeight :: int

record conf_B = conf +
  Height :: int
  Xoffset :: int
  Yoffset :: int
  Debug :: bool

text \<open>
  \<open>parser.Parse()\<close> returns the remaining arguments and an error. \<open>main\<close> only asks of
  the error whether it is a \<open>*flags.Error\<close> of type \<open>ErrHelp\<close>. The parser is created
  with \<open>flags.Default\<close>, so it prints the error itself before it returns: the help
  message to standard output, any other error to standard error. \<open>ErrHelp\<close> carries the
  help message.
\<close>

datatype flags_error = ErrHelp string | ErrOther

subsection \<open>The font backend and the rasteriser\<close>

text \<open>
  Of \<open>font.Metrics\<close> the program computes with \<open>Height\<close> and \<open>CapHeight\<close> only (the
  other fields are printed to the log in debug mode).
\<close>

record metrics =
  Height_M :: int26_6
  CapHeight_M :: int26_6

text \<open>
  \<open>sfnt.Segment\<close>: an operation code (\<open>SegmentOp\<close> is a \<open>uint32\<close>) and three points
  (\<open>[3]fixed.Point26_6\<close>), a point being the pair of its \<open>X\<close> and \<open>Y\<close>.
\<close>

type_synonym point26_6 = "int26_6 \<times> int26_6"

record segment =
  Op :: "32 word"
  Args :: "point26_6 \<times> point26_6 \<times> point26_6"

definition Args0 :: "segment \<Rightarrow> point26_6" where
  "Args0 seg = fst (Args seg)"

definition Args1 :: "segment \<Rightarrow> point26_6" where
  "Args1 seg = fst (snd (Args seg))"

definition Args2 :: "segment \<Rightarrow> point26_6" where
  "Args2 seg = snd (snd (Args seg))"

definition SegmentOpMoveTo :: "32 word" where
  "SegmentOpMoveTo = 0"

definition SegmentOpLineTo :: "32 word" where
  "SegmentOpLineTo = 1"

definition SegmentOpQuadTo :: "32 word" where
  "SegmentOpQuadTo = 2"

definition SegmentOpCubeTo :: "32 word" where
  "SegmentOpCubeTo = 3"

text \<open>The operation codes that have a case in \<open>switch seg.Op\<close>.\<close>

definition supported :: "32 word \<Rightarrow> bool" where
  "supported op \<longleftrightarrow>
     op = SegmentOpMoveTo \<or> op = SegmentOpLineTo \<or> op = SegmentOpQuadTo \<or>
     op = SegmentOpCubeTo"

text \<open>The calls made on the rasteriser, with their \<open>float32\<close> arguments of type \<open>'f\<close>.\<close>

datatype 'f path_cmd =
    MoveTo 'f 'f
  | LineTo 'f 'f
  | QuadTo 'f 'f 'f 'f
  | CubeTo 'f 'f 'f 'f 'f 'f

text \<open>
  The libraries, as \<open>main\<close> uses them. An \<open>error\<close> of a library is the text \<open>%v\<close> prints.
  \<^item> \<open>Parse\<close>: \<open>sfnt.Parse\<close>;
  \<^item> \<open>GlyphIndex f r\<close>: \<open>f.GlyphIndex(&b, r)\<close>, a \<open>uint16\<close> index;
  \<^item> \<open>Metrics f ppem\<close>: \<open>f.Metrics(&b, fixed.I(ppem), font.HintingFull)\<close>;
  \<^item> \<open>LoadGlyph f x ppem\<close>: \<open>f.LoadGlyph(&b, x, fixed.I(ppem), nil)\<close>;
  \<^item> \<open>float32\<close>, \<open>fadd\<close>, \<open>fdiv\<close>: conversion of an integer to \<open>float32\<close>, and
    \<open>+\<close> and \<open>/\<close> on \<open>float32\<close>;
  \<^item> \<open>NewRasterizer w h\<close>: \<open>vector.NewRasterizer(w, h)\<close>, which panics for some
    sizes (a negative \<open>w * h\<close>, for one): the value of the panic, or \<open>None\<close> when it
    returns a rasteriser;
  \<^item> \<open>Draw w h path\<close>: \<open>image.NewAlpha(image.Rect(0, 0, w, h))\<close> and \<open>r.Draw\<close> into it,
    for the rasteriser of size \<open>w\<close>, \<open>h\<close> with \<open>DrawOp = draw.Src\<close> after the calls of
    \<open>path\<close>: the value of a panic, or the image, read as \<open>dst.AlphaAt(x, y).A\<close>.
\<close>

record ('font, 'f) backend =
  Parse :: "byte list \<Rightarrow> string + 'font"
  GlyphIndex :: "'font \<Rightarrow> int \<Rightarrow> string + 16 word"
  Metrics :: "'font \<Rightarrow> int \<Rightarrow> string + metrics"
  LoadGlyph :: "'font \<Rightarrow> 16 word \<Rightarrow> int \<Rightarrow> string + segment list"
  float32 :: "int \<Rightarrow> 'f"
  fadd :: "'f \<Rightarrow> 'f \<Rightarrow> 'f"
  fdiv :: "'f \<Rightarrow> 'f \<Rightarrow> 'f"
  NewRasterizer :: "int \<Rightarrow> int \<Rightarrow> string option"
  Draw :: "int \<Rightarrow> int \<Rightarrow> 'f path_cmd list \<Rightarrow> string + (int \<Rightarrow> int \<Rightarrow> byte)"

text \<open>\<open>ioutil.ReadFile\<close>: the error text or the bytes of the file.\<close>

type_synonym filesystem = "string \<Rightarrow> string + byte list"

subsection \<open>Errors and the end of a run\<close>

text \<open>The calls of \<open>log.Fatal\<close> and \<open>log.Fatalf\<close>, in the order of the source.\<close>

datatype error =
    AdditionalParameters
  | ParseFailed string
  | MetricsFailed string
  | GlyphIndexFailed string
  | NoGlyphIndex int
  | LoadGlyphFailed string
  | UnsupportedOp "32 word"

text \<open>
  How \<open>main\<close> ends: \<open>os.Exit n\<close>; \<open>log.Fatal\<close>, which exits with status 1; a panic of
  the rasteriser, which nothing recovers and which exits with status 2; the \<open>return\<close>
  after \<open>log.Println(err)\<close> when the font file cannot be read; or the end of \<open>main\<close>.
  Returning from \<open>main\<close> is exit status 0.
\<close>

datatype ending = Exit int | Fatal error | Panic string | ReadFailed string | Done

fun exit_code :: "ending \<Rightarrow> int" where
  "exit_code (Exit n) = n"
| "exit_code (Fatal e) = 1"
| "exit_code (Panic p) = 2"
| "exit_code (ReadFailed e) = 0"
| "exit_code Done = 0"

subsection \<open>Standard output\<close>

text \<open>
  What a run writes to standard output. The flag parser writes the help message
  (\<open>fmt.Fprintln(os.Stdout, err)\<close>). \<open>main\<close> writes the table, one item for each
  piece: the prologue (\<open>fmt.Println\<close> of the raw string), the comment that opens a
  glyph, a row (the packed bytes and the \<open>.\<close>/\<open>#\<close> picture), the closing \<open>};\<close>, the
  font path and the \<open>sFONT\<close> descriptor with its two numbers.
\<close>

datatype item =
    HelpText string
  | Prologue
  | GlyphComment int
  | Row "byte list" string
  | TableEnd
  | BasedOn string
  | Descriptor int int

text \<open>\<open>%d\<close>: decimal digits, with a minus sign for a negative number.\<close>

definition digit :: "nat \<Rightarrow> char" where
  "digit n = ''0123456789ABCDEF'' ! n"

fun show_nat :: "nat \<Rightarrow> string" where
  "show_nat n = (if n < 10 then [digit n] else show_nat (n div 10) @ [digit (n mod 10)])"

declare show_nat.simps [simp del]

definition show_int :: "int \<Rightarrow> string" where
  "show_int i = (if i < 0 then CHR ''-'' # show_nat (nat (- i)) else show_nat (nat i))"

text \<open>\<open>0x%.2X, \<close> of a byte: two upper-case hexadecimal digits.\<close>

definition hex_byte :: "byte \<Rightarrow> string" where
  "hex_byte b = ''0x'' @ [digit (unat b div 16), digit (unat b mod 16)] @ '', ''"

text \<open>\<open>%c\<close> of a rune between 32 and 126 is the one ASCII character of that code.\<close>

definition show_rune :: "int \<Rightarrow> string" where
  "show_rune v = [char_of v]"

definition prologue_text :: string where
  "prologue_text =
    ''#include \"fonts.h\"\<newline>'' @
    ''#if defined(__AVR__) || defined(ARDUINO_ARCH_SAMD)\<newline>'' @
    ''#include <avr/pgmspace.h>\<newline>'' @
    ''#elif defined(ESP8266) || defined(ESP32)\<newline>'' @
    ''#include <pgmspace.h>\<newline>'' @
    ''#endif\<newline>'' @
    ''\<newline>'' @
    ''const uint8_t FontCustom_Table [] PROGMEM =\<newline>'' @
    ''{\<newline>'' @
    ''\<newline>''"

fun render :: "item \<Rightarrow> string" where
  "render (HelpText msg) = msg @ ''\<newline>''"
| "render Prologue = prologue_text"
| "render (GlyphComment v) = ''  // '' @ show_rune v @ '' '' @ show_int v @ ''\<newline>''"
| "render (Row bs tmp) = ''  '' @ concat (map hex_byte bs) @ '' // '' @ tmp @ ''\<newline>''"
| "render TableEnd = ''};''"
| "render (BasedOn p) = ''\<newline>\<newline>/* Based on font '' @ p @ '' */\<newline>''"
| "render (Descriptor w h) =
     ''sFONT FontCustom = {\<newline>  FontCustom_Table,\<newline>  '' @ show_int w @
     '', /* Width */\<newline>  '' @ show_int h @ '', /* Height */\<newline>};\<newline>''"

text \<open>
  The items of the table: everything but the help message of the parser.
\<close>

fun table_item :: "item \<Rightarrow> bool" where
  "table_item (HelpText msg) = False"
| "table_item it = True"

text \<open>A run: what it printed, the files it read, and how it ended.\<close>

record run =
  out :: "item list"
  reads :: "string list"
  ending :: ending

definition stdout :: "run \<Rightarrow> string" where
  "stdout r = concat (map render (out r))"

subsection \<open>The bit writer\<close>

text \<open>
  \<open>github.com/icza/bitio\<close> is not part of the repository. Its \<open>Writer\<close> is modelled
  from its documentation: bits are written most significant first into a cache byte,
  \<open>bits\<close> counts the free bits of the cache (8 when it is empty), a full cache is written
  out, and \<open>Close\<close> writes out a partly filled cache, its free low bits zero. The field
  \<open>buf\<close> is the \<open>bytes.Buffer\<close> the writer was created on.
\<close>

record writer =
  buf :: "byte list"
  cache :: byte
  bits :: nat

definition NewWriter :: writer where
  "NewWriter = \<lparr>buf = [], cache = 0, bits = 8\<rparr>"

definition WriteBool :: "writer \<Rightarrow> bool \<Rightarrow> writer" where
  "WriteBool w b =
     (if bits w = 1
      then \<lparr>buf = buf w @ [if b then cache w OR 1 else cache w], cache = 0, bits = 8\<rparr>
      else w\<lparr>cache := (if b then cache w OR push_bit (bits w - 1) 1 else cache w),
              bits := bits w - 1\<rparr>)"

text \<open>\<open>WriteBits(r, n)\<close> writes the \<open>n\<close> lowest bits of \<open>r\<close>, the highest of them first.\<close>

fun WriteBits :: "writer \<Rightarrow> 64 word \<Rightarrow> nat \<Rightarrow> writer" where
  "WriteBits w r 0 = w"
| "WriteBits w r (Suc n) = WriteBits (WriteBool w (bit r n)) r n"

definition Close :: "writer \<Rightarrow> writer" where
  "Close w = (if bits w \<noteq> 8 then \<lparr>buf = buf w @ [cache w], cache = 0, bits = 8\<rparr> else w)"

subsection \<open>Packing a row\<close>

text \<open>
  The inner loop \<open>for x := 0; x < width; x++\<close>: one bit and one character of the
  picture for each pixel of row \<open>y\<close>.
\<close>

function pixels :: "(int \<Rightarrow> int \<Rightarrow> byte) \<Rightarrow> int \<Rightarrow> int \<Rightarrow> int \<Rightarrow> writer \<times> string \<Rightarrow> writer \<times> string" where
  "pixels dst width y x (w, tmp) =
     (if x < width
      then (let a = dst x y in
            if a < 64
            then pixels dst width y (x + 1) (WriteBits w 0 1, tmp @ ''.'')
            else pixels dst width y (x + 1) (WriteBits w 1 1, tmp @ ''#''))
      else (w, tmp))"
  by pat_completeness auto
termination
  by (relation "measure (\<lambda>(dst, width, y, x, s). nat (width - x))") auto

declare pixels.simps [simp del]

text \<open>The bytes of row \<open>y\<close> after \<open>w.Close()\<close>, and the item printed for the row.\<close>

definition packed_row :: "(int \<Rightarrow> int \<Rightarrow> byte) \<Rightarrow> int \<Rightarrow> int \<Rightarrow> byte list" where
  "packed_row dst width y = buf (Close (fst (pixels dst width y 0 (NewWriter, []))))"

definition row :: "(int \<Rightarrow> int \<Rightarrow> byte) \<Rightarrow> int \<Rightarrow> int \<Rightarrow> item" where
  "row dst width y =
     Row (packed_row dst width y) (snd (pixels dst width y 0 (NewWriter, [])))"

text \<open>The loop \<open>for y := 0; y < height; y++\<close>.\<close>

function rows :: "(int \<Rightarrow> int \<Rightarrow> byte) \<Rightarrow> int \<Rightarrow> int \<Rightarrow> int \<Rightarrow> item list" where
  "rows dst width height y =
     (if y < height then row dst width y # rows dst width height (y + 1) else [])"
  by pat_completeness auto
termination
  by (relation "measure (\<lambda>(dst, width, height, y). nat (height - y))") auto

declare rows.simps [simp del]

subsection \<open>Feeding the outline to the rasteriser\<close>

text \<open>
  The four cases of \<open>switch seg.Op\<close>, the same in both variants; \<open>None\<close> when no case
  matches.
\<close>

definition coord :: "('font, 'f) backend \<Rightarrow> 'f \<Rightarrow> int26_6 \<Rightarrow> 'f" where
  "coord bk origin a = fadd bk origin (fdiv bk (float32 bk (sint a)) (float32 bk 64))"

definition seg_cmd :: "('font, 'f) backend \<Rightarrow> 'f \<Rightarrow> 'f \<Rightarrow> segment \<Rightarrow> 'f path_cmd option" where
  "seg_cmd bk originX originY seg =
     (if Op seg = SegmentOpMoveTo then
        Some (MoveTo (coord bk originX (fst (Args0 seg))) (coord bk originY (snd (Args0 seg))))
      else if Op seg = SegmentOpLineTo then
        Some (LineTo (coord bk originX (fst (Args0 seg))) (coord bk originY (snd (Args0 seg))))
      else if Op seg = SegmentOpQuadTo then
        Some (QuadTo (coord bk originX (fst (Args0 seg))) (coord bk originY (snd (Args0 seg)))
                     (coord bk originX (fst (Args1 seg))) (coord bk originY (snd (Args1 seg))))
      else if Op seg = SegmentOpCubeTo then
        Some (CubeTo (coord bk originX (fst (Args0 seg))) (coord bk originY (snd (Args0 seg)))
                     (coord bk originX (fst (Args1 seg))) (coord bk originY (snd (Args1 seg)))
                     (coord bk originX (fst (Args2 seg))) (coord bk originY (snd (Args2 seg))))
      else None)"

text \<open>
  \<open>for _, seg := range segments\<close>, with the calls made so far in \<open>r\<close>. Variant A has no
  \<open>default\<close> case: a segment that matches no case does nothing. Variant B has
  \<open>default: log.Fatal("OP: ", seg.Op)\<close>.
\<close>

fun segments_A :: "('font, 'f) backend \<Rightarrow> 'f \<Rightarrow> 'f \<Rightarrow> segment list \<Rightarrow> 'f path_cmd list \<Rightarrow> 'f path_cmd list" where
  "segments_A bk originX originY [] r = r"
| "segments_A bk originX originY (seg # segs) r =
     (case seg_cmd bk originX originY seg of
        Some cmd \<Rightarrow> segments_A bk originX originY segs (r @ [cmd])
      | None \<Rightarrow> segments_A bk originX originY segs r)"

fun segments_B :: "('font, 'f) backend \<Rightarrow> 'f \<Rightarrow> 'f \<Rightarrow> segment list \<Rightarrow> 'f path_cmd list \<Rightarrow> error + 'f path_cmd list" where
  "segments_B bk originX originY [] r = Inr r"
| "segments_B bk originX originY (seg # segs) r =
     (case seg_cmd bk originX originY seg of
        Some cmd \<Rightarrow> segments_B bk originX originY segs (r @ [cmd])
      | None \<Rightarrow> Inl (UnsupportedOp (Op seg)))"

subsection \<open>Variant B: cell height and origin from the flags\<close>

text \<open>
  The body of the loop over the runes, up to the lines it prints: the glyph comment and
  the rows. \<open>width\<close> and \<open>height\<close> are computed before the loop. The body stops the run
  with \<open>log.Fatal\<close> or with a panic of the rasteriser.
\<close>

definition glyph_B :: "conf_B \<Rightarrow> ('font, 'f) backend \<Rightarrow> 'font \<Rightarrow> int \<Rightarrow> int \<Rightarrow> int \<Rightarrow> ending + item list" where
  "glyph_B c bk f width height i =
     (let v = i in
      case GlyphIndex bk f v of
        Inl e \<Rightarrow> Inl (Fatal (GlyphIndexFailed e))
      | Inr x \<Rightarrow>
          if x = 0 then Inl (Fatal (NoGlyphIndex v))
          else
            let originX = float32 bk (Xoffset c);
                originY = float32 bk (Yoffset c)
            in case LoadGlyph bk f x (PPEM c) of
                 Inl e \<Rightarrow> Inl (Fatal (LoadGlyphFailed e))
               | Inr segments \<Rightarrow>
                   (case NewRasterizer bk width height of
                      Some p \<Rightarrow> Inl (Panic p)
                    | None \<Rightarrow>
                        (case segments_B bk originX originY segments [] of
                           Inl e \<Rightarrow> Inl (Fatal e)
                         | Inr r \<Rightarrow>
                             (case Draw bk width height r of
                                Inl p \<Rightarrow> Inl (Panic p)
                              | Inr dst \<Rightarrow>
                                  Inr (GlyphComment v # rows dst width height 0)))))"

text \<open>
  \<open>for i := 32; i <= 126; i++\<close>, with the items printed so far. The result is the
  ending that stopped the loop, if any, and the items printed.
\<close>

function glyphs_B :: "conf_B \<Rightarrow> ('font, 'f) backend \<Rightarrow> 'font \<Rightarrow> int \<Rightarrow> int \<Rightarrow> int \<Rightarrow> item list \<Rightarrow> ending option \<times> item list" where
  "glyphs_B c bk f width height i printed =
     (if i \<le> 126
      then (case glyph_B c bk f width height i of
              Inl e \<Rightarrow> (Some e, printed)
            | Inr items \<Rightarrow> glyphs_B c bk f width height (i + 1) (printed @ items))
      else (None, printed))"
  by pat_completeness auto
termination
  by (relation "measure (\<lambda>(c, bk, f, width, height, i, printed). nat (127 - i))") auto

declare glyphs_B.simps [simp del]

text \<open>The debug block: it ends the run when the metrics cannot be computed.\<close>

definition debug_B :: "conf_B \<Rightarrow> ('font, 'f) backend \<Rightarrow> 'font \<Rightarrow> error option" where
  "debug_B c bk f =
     (if Debug c
      then (case Metrics bk f (PPEM c) of Inl e \<Rightarrow> Some (MetricsFailed e) | Inr i \<Rightarrow> None)
      else None)"

definition main_B :: "filesystem \<Rightarrow> ('font, 'f) backend \<Rightarrow> conf_B \<Rightarrow> string list \<Rightarrow> flags_error option \<Rightarrow> run" where
  "main_B fs bk c args err =
     (case err of
        Some (ErrHelp msg) \<Rightarrow> \<lparr>out = [HelpText msg], reads = [], ending = Exit 0\<rparr>
      | Some ErrOther \<Rightarrow> \<lparr>out = [], reads = [], ending = Exit 1\<rparr>
      | None \<Rightarrow>
          if length args > 0
          then \<lparr>out = [], reads = [], ending = Fatal AdditionalParameters\<rparr>
          else
            (case fs (Font c) of
               Inl e \<Rightarrow> \<lparr>out = [], reads = [Font c], ending = ReadFailed e\<rparr>
             | Inr fontBytes \<Rightarrow>
                 (case Parse bk fontBytes of
                    Inl e \<Rightarrow> \<lparr>out = [], reads = [Font c], ending = Fatal (ParseFailed e)\<rparr>
                  | Inr f \<Rightarrow>
                      (case debug_B c bk f of
                         Some e \<Rightarrow> \<lparr>out = [], reads = [Font c], ending = Fatal e\<rparr>
                       | None \<Rightarrow>
                           let width = wrap64 (Width c * 8);
                               height = Height c
                           in (case glyphs_B c bk f width height 32 [Prologue] of
                                 (Some e, printed) \<Rightarrow>
                                   \<lparr>out = printed, reads = [Font c], ending = e\<rparr>
                               | (None, printed) \<Rightarrow>
                                   \<lparr>out = printed @
                                      [TableEnd, BasedOn (Font c), Descriptor width height],
                                    reads = [Font c], ending = Done\<rparr>)))))"

subsection \<open>Variant A: cell height and origin from the font metrics\<close>

text \<open>
  \<^verbatim>\<open>height := i.Height.Ceil()
if conf.ReduceHeight >= 0 { height -= conf.ReduceHeight }
else { height = height * 3 / 4; height += 1 }\<close>
\<close>

definition cell_height_A :: "conf_A \<Rightarrow> metrics \<Rightarrow> int" where
  "cell_height_A c i =
     (let height = Ceil (Height_M i) in
      if ReduceHeight c \<ge> 0
      then wrap64 (height - ReduceHeight c)
      else wrap64 (go_quot (wrap64 (height * 3)) 4 + 1))"

text \<open>
  The body of the loop: the items it prints and the values it leaves in \<open>widthP\<close> and
  \<open>heightP\<close>.
\<close>

definition glyph_A :: "conf_A \<Rightarrow> ('font, 'f) backend \<Rightarrow> 'font \<Rightarrow> int \<Rightarrow> ending + item list \<times> int \<times> int" where
  "glyph_A c bk f i =
     (let v = i in
      case GlyphIndex bk f v of
        Inl e \<Rightarrow> Inl (Fatal (GlyphIndexFailed e))
      | Inr x \<Rightarrow>
          if x = 0 then Inl (Fatal (NoGlyphIndex v))
          else
            (case Metrics bk f (PPEM c) of
               Inl e \<Rightarrow> Inl (Fatal (MetricsFailed e))
             | Inr m \<Rightarrow>
                 let width = wrap64 (Width c * 8);
                     height = cell_height_A c m;
                     originX = float32 bk 0;
                     originY = fadd bk (float32 bk (wrap64 (Ceil (CapHeight_M m) * (- 1))))
                                 (float32 bk 1)
                 in case LoadGlyph bk f x (PPEM c) of
                      Inl e \<Rightarrow> Inl (Fatal (LoadGlyphFailed e))
                    | Inr segments \<Rightarrow>
                        (case NewRasterizer bk width height of
                           Some p \<Rightarrow> Inl (Panic p)
                         | None \<Rightarrow>
                             let r = segments_A bk originX originY segments [] in
                             (case Draw bk width height r of
                                Inl p \<Rightarrow> Inl (Panic p)
                              | Inr dst \<Rightarrow>
                                  Inr (GlyphComment v # rows dst width height 0,
                                       width, height)))))"

function glyphs_A :: "conf_A \<Rightarrow> ('font, 'f) backend \<Rightarrow> 'font \<Rightarrow> int \<Rightarrow> item list \<times> int \<times> int \<Rightarrow> ending option \<times> item list \<times> int \<times> int" where
  "glyphs_A c bk f i (printed, widthP, heightP) =
     (if i \<le> 126
      then (case glyph_A c bk f i of
              Inl e \<Rightarrow> (Some e, printed, widthP, heightP)
            | Inr (items, width, height) \<Rightarrow>
                glyphs_A c bk f (i + 1) (printed @ items, width, height))
      else (None, printed, widthP, heightP))"
  by pat_completeness auto
termination
  by (relation "measure (\<lambda>(c, bk, f, i, s). nat (127 - i))") auto

declare glyphs_A.simps [simp del]

definition main_A :: "filesystem \<Rightarrow> ('font, 'f) backend \<Rightarrow> conf_A \<Rightarrow> string list \<Rightarrow> flags_error option \<Rightarrow> run" where
  "main_A fs bk c args err =
     (case err of
        Some (ErrHelp msg) \<Rightarrow> \<lparr>out = [HelpText msg], reads = [], ending = Exit 0\<rparr>
      | Some ErrOther \<Rightarrow> \<lparr>out = [], reads = [], ending = Exit 1\<rparr>
      | None \<Rightarrow>
          if length args > 0
          then \<lparr>out = [], reads = [], ending = Fatal AdditionalParameters\<rparr>
          else
            (case fs (Font c) of
               Inl e \<Rightarrow> \<lparr>out = [], reads = [Font c], ending = ReadFailed e\<rparr>
             | Inr fontBytes \<Rightarrow>
                 (case Parse bk fontBytes of
                    Inl e \<Rightarrow> \<lparr>out = [], reads = [Font c], ending = Fatal (ParseFailed e)\<rparr>
                  | Inr f \<Rightarrow>
                      (case glyphs_A c bk f 32 ([Prologue], 0, 0) of
                         (Some e, printed, widthP, heightP) \<Rightarrow>
                           \<lparr>out = printed, reads = [Font c], ending = e\<rparr>
                       | (None, printed, widthP, heightP) \<Rightarrow>
                           \<lparr>out = printed @
                              [TableEnd, BasedOn (Font c), Descriptor widthP heightP],
                            reads = [Font c], ending = Done\<rparr>))))"

subsection \<open>The bits of the packed bytes\<close>

text \<open>
  Used to state what the writer has written: the bits of a byte from the most
  significant to the least, the bits a writer holds (the bytes written out and the used
  part of the cache), and the invariant of the writer (between 1 and 8 free bits, all
  of them zero).
\<close>

definition byte_bits :: "byte \<Rightarrow> bool list" where
  "byte_bits b = map (\<lambda>k. bit b (7 - k)) [0..<8]"

definition written :: "writer \<Rightarrow> bool list" where
  "written w = concat (map byte_bits (buf w)) @ take (8 - bits w) (byte_bits (cache w))"

definition writer_ok :: "writer \<Rightarrow> bool" where
  "writer_ok w \<longleftrightarrow> 1 \<le> bits w \<and> bits w \<le> 8 \<and> (\<forall>k < bits w. \<not> bit (cache w) k)"

subsection \<open>Example inputs\<close>

text \<open>
  A file system with one font file, and a backend that parses every non-empty file,
  maps every rune to glyph 7, gives every glyph the same four-segment outline, panics
  for a size with a negative product and paints the eight leftmost columns. Exact reals
  stand for \<open>float32\<close>.
\<close>

definition demo_fs :: filesystem where
  "demo_fs p = (if p = ''font.ttf'' then Inr [0, 1, 0, 0] else Inl ''no such file or directory'')"

definition demo_outline :: "segment list" where
  "demo_outline =
     [\<lparr>Op = 0, Args = ((0, 0), (0, 0), (0, 0))\<rparr>,
      \<lparr>Op = 1, Args = ((512, 0), (0, 0), (0, 0))\<rparr>,
      \<lparr>Op = 2, Args = ((512, 64), (0, 64), (0, 0))\<rparr>,
      \<lparr>Op = 3, Args = ((0, 32), (0, 16), (0, 0))\<rparr>]"

definition demo_bk :: "(unit, real) backend" where
  "demo_bk =
     \<lparr>Parse = (\<lambda>bs. if bs = [] then Inl ''sfnt: invalid font'' else Inr ()),
      GlyphIndex = (\<lambda>f r. Inr 7),
      Metrics = (\<lambda>f ppem. Inr \<lparr>Height_M = 128, CapHeight_M = 64\<rparr>),
      LoadGlyph = (\<lambda>f x ppem. Inr demo_outline),
      float32 = real_of_int,
      fadd = (+),
      fdiv = (/),
      NewRasterizer = (\<lambda>w h. if w * h < 0 then Some ''slice bounds out of range'' else None),
      Draw = (\<lambda>w h path. Inr (\<lambda>x y. if x < 8 then 255 else 0))\<rparr>"

text \<open>The same font without a glyph for the rune 100.\<close>

definition holey_bk :: "(unit, real) backend" where
  "holey_bk = demo_bk\<lparr>GlyphIndex := (\<lambda>f r. if r = 100 then Inr 0 else Inr 7)\<rparr>"



definition demo_conf_B :: conf_B where
  "demo_conf_B =
     \<lparr>Width = 2, PPEM = 20, Font = ''font.ttf'',
      Height = 1, Xoffset = 0, Yoffset = 18, Debug = False\<rparr>"

definition demo_conf_A :: conf_A where
  "demo_conf_A = \<lparr>Width = 2, PPEM = 24, Font = ''font.ttf'', ReduceHeight = - 1\<rparr>"

text \<open>Metrics with a height of minus one pixel, and images for the packing of a row.\<close>

definition low_metrics :: metrics where
  "low_metrics = \<lparr>Height_M = - 64, CapHeight_M = 0\<rparr>"

definition edge_img :: "int \<Rightarrow> int \<Rightarrow> byte" where
  "edge_img x y = (if x = 0 then 63 else if x = 1 then 64 else 0)"

definition left8_img :: "int \<Rightarrow> int \<Rightarrow> byte" where
  "left8_img x y = (if x < 8 then 200 else 0)"

section \<open>Lemmas\<close>

subsection \<open>The bit writer and the packed row\<close>

lemma byte_bits_explicit:
  "byte_bits b = [bit b 7, bit b 6, bit b 5, bit b 4, bit b 3, bit b 2, bit b 1, bit b 0]"
  by (simp add: byte_bits_def upt_rec)

lemma length_byte_bits [simp]: "length (byte_bits b) = 8"
  by (simp add: byte_bits_def)

lemma bits_cases:
  assumes "1 \<le> (n::nat)" "n \<le> 8"
  obtains "n = 1" | "n = 2" | "n = 3" | "n = 4" | "n = 5" | "n = 6" | "n = 7" | "n = 8"
  using assms by linarith

lemma all_less_8:
  "(\<forall>k<8. P k) \<longleftrightarrow> P 0 \<and> P 1 \<and> P 2 \<and> P 3 \<and> P 4 \<and> P 5 \<and> P 6 \<and> P (7::nat)"
  "(\<forall>k<7. P k) \<longleftrightarrow> P 0 \<and> P 1 \<and> P 2 \<and> P 3 \<and> P 4 \<and> P 5 \<and> P (6::nat)"
  "(\<forall>k<6. P k) \<longleftrightarrow> P 0 \<and> P 1 \<and> P 2 \<and> P 3 \<and> P 4 \<and> P (5::nat)"
  "(\<forall>k<5. P k) \<longleftrightarrow> P 0 \<and> P 1 \<and> P 2 \<and> P 3 \<and> P (4::nat)"
  "(\<forall>k<4. P k) \<longleftrightarrow> P 0 \<and> P 1 \<and> P 2 \<and> P (3::nat)"
  "(\<forall>k<3. P k) \<longleftrightarrow> P 0 \<and> P 1 \<and> P (2::nat)"
  "(\<forall>k<2. P k) \<longleftrightarrow> P 0 \<and> P (1::nat)"
  "(\<forall>k<1. P k) \<longleftrightarrow> P (0::nat)"
  by (simp_all add: numeral_eq_Suc less_Suc_eq all_conj_distrib conj_ac)

lemma WriteBool_written:
  assumes "writer_ok w"
  shows "writer_ok (WriteBool w b) \<and> written (WriteBool w b) = written w @ [b]"
proof -
  from assms have "1 \<le> bits w" "bits w \<le> 8" by (auto simp: writer_ok_def)
  then show ?thesis
    using assms
    by (cases rule: bits_cases)
       (simp_all add: writer_ok_def WriteBool_def written_def byte_bits_explicit all_less_8
          bit_simps)
qed


lemma WriteBits_one:
  "WriteBits w 0 1 = WriteBool w False" "WriteBits w 1 1 = WriteBool w True"
  by simp_all

lemma NewWriter_ok: "writer_ok NewWriter \<and> written NewWriter = []"
  by (simp add: writer_ok_def NewWriter_def written_def)

lemma pixels_written:
  "writer_ok w \<Longrightarrow>
   writer_ok (fst (pixels dst width y x (w, tmp))) \<and>
   written (fst (pixels dst width y x (w, tmp))) =
     written w @ map (\<lambda>k. 64 \<le> dst k y) [x..width - 1] \<and>
   snd (pixels dst width y x (w, tmp)) =
     tmp @ map (\<lambda>k. if dst k y < 64 then CHR ''.'' else CHR ''#'') [x..width - 1]"
proof (induction "nat (width - x)" arbitrary: x w tmp)
  case 0
  then have "\<not> x < width" by simp
  with 0 show ?case by (subst (1 2 3) pixels.simps) simp
next
  case (Suc n)
  then have lt: "x < width" and n: "n = nat (width - (x + 1))" by linarith+
  have up: "[x..width - 1] = x # [x + 1..width - 1]" using lt by (simp add: upto_rec1)
  show ?case
  proof (cases "dst x y < 64")
    case True
    let ?w = "WriteBool w False"
    have step: "pixels dst width y x (w, tmp) = pixels dst width y (x + 1) (?w, tmp @ ''.'')"
      using lt True by (subst pixels.simps) (simp add: WriteBits_one)
    have ok: "writer_ok ?w" "written ?w = written w @ [False]"
      using WriteBool_written [OF Suc.prems] by auto
    from Suc.hyps(1) [OF n ok(1), of "tmp @ ''.''"] True
    show ?thesis unfolding step up by (simp add: ok(2) not_le)
  next
    case False
    let ?w = "WriteBool w True"
    have step: "pixels dst width y x (w, tmp) = pixels dst width y (x + 1) (?w, tmp @ ''#'')"
      using lt False by (subst pixels.simps) (simp add: WriteBits_one)
    have ok: "writer_ok ?w" "written ?w = written w @ [True]"
      using WriteBool_written [OF Suc.prems] by auto
    from Suc.hyps(1) [OF n ok(1), of "tmp @ ''#''"] False
    show ?thesis unfolding step up by (simp add: ok(2) not_less)
  qed
qed

lemma replicate_False:
  "replicate 2 False = [False, False]"
  "replicate 3 False = [False, False, False]"
  "replicate 4 False = [False, False, False, False]"
  "replicate 5 False = [False, False, False, False, False]"
  "replicate 6 False = [False, False, False, False, False, False]"
  "replicate 7 False = [False, False, False, False, False, False, False]"
  by (simp_all add: numeral_eq_Suc)

lemma Close_written:
  assumes "writer_ok w"
  shows "concat (map byte_bits (buf (Close w))) = written w @ replicate (bits w mod 8) False"
proof -
  from assms have "1 \<le> bits w" "bits w \<le> 8" by (auto simp: writer_ok_def)
  then show ?thesis
    using assms
    by (cases rule: bits_cases)
       (simp_all add: writer_ok_def Close_def written_def byte_bits_explicit all_less_8
          replicate_False)
qed

lemma packed_row_bits:
  "\<exists>pad < 8. concat (map byte_bits (packed_row dst width y)) =
     map (\<lambda>k. 64 \<le> dst k y) [0..width - 1] @ replicate pad False"
proof -
  let ?w = "fst (pixels dst width y 0 (NewWriter, []))"
  have "writer_ok ?w" "written ?w = map (\<lambda>k. 64 \<le> dst k y) [0..width - 1]"
    using pixels_written [of NewWriter dst width y 0 "[]"] NewWriter_ok by auto
  with Close_written [of ?w] show ?thesis
    by (intro exI [of _ "bits ?w mod 8"]) (simp add: packed_row_def)
qed

lemma concat_byte_bits_nth:
  "n < 8 * length bs \<Longrightarrow> concat (map byte_bits bs) ! n = bit (bs ! (n div 8)) (7 - n mod 8)"
proof (induction bs arbitrary: n)
  case Nil
  then show ?case by simp
next
  case (Cons b bs)
  show ?case
  proof (cases "n < 8")
    case True
    then show ?thesis by (simp add: nth_append byte_bits_def)
  next
    case False
    then have "n - 8 < 8 * length bs" using Cons.prems by simp
    from Cons.IH [OF this] False show ?thesis
      by (simp add: nth_append le_div_geq le_mod_geq)
  qed
qed

lemma length_concat_byte_bits: "length (concat (map byte_bits bs)) = 8 * length bs"
  by (induction bs) simp_all

lemma length_packed_row: "length (packed_row dst width y) = (nat width + 7) div 8"
proof -
  obtain pad where pad: "pad < 8"
    "concat (map byte_bits (packed_row dst width y)) =
       map (\<lambda>k. 64 \<le> dst k y) [0..width - 1] @ replicate pad False"
    using packed_row_bits by blast
  have "length (concat (map byte_bits (packed_row dst width y))) = 8 * length (packed_row dst width y)"
    by (rule length_concat_byte_bits)
  with pad have "8 * length (packed_row dst width y) = nat width + pad"
    by simp
  with pad(1) show ?thesis by linarith
qed


lemma packed_row_bit:
  assumes "n < 8 * length (packed_row dst width y)"
  shows "bit (packed_row dst width y ! (n div 8)) (7 - n mod 8) \<longleftrightarrow>
         int n < width \<and> 64 \<le> dst (int n) y"
proof -
  obtain pad where pad: "pad < 8"
    "concat (map byte_bits (packed_row dst width y)) =
       map (\<lambda>k. 64 \<le> dst k y) [0..width - 1] @ replicate pad False"
    using packed_row_bits by blast
  have len: "8 * length (packed_row dst width y) = nat width + pad"
    using pad(2) length_concat_byte_bits [of "packed_row dst width y"] by simp
  have "bit (packed_row dst width y ! (n div 8)) (7 - n mod 8) =
        (map (\<lambda>k. 64 \<le> dst k y) [0..width - 1] @ replicate pad False) ! n"
    using concat_byte_bits_nth [OF assms] pad(2) by simp
  also have "\<dots> \<longleftrightarrow> int n < width \<and> 64 \<le> dst (int n) y"
  proof (cases "int n < width")
    case True
    then have "n < nat width" by linarith
    with True show ?thesis by (simp add: nth_append)
  next
    case False
    then have "n - nat width < pad" "\<not> n < nat width" using assms len by linarith+
    with False show ?thesis by (simp add: nth_append)
  qed
  finally show ?thesis .
qed

subsection \<open>The loops\<close>

lemma glyphs_B_split:
  "lo \<le> i \<Longrightarrow> i \<le> 127 \<Longrightarrow> (\<forall>j. lo \<le> j \<and> j < i \<longrightarrow> glyph_B c bk f width height j = Inr (g j)) \<Longrightarrow>
   glyphs_B c bk f width height lo printed =
   glyphs_B c bk f width height i (printed @ concat (map g [lo..i - 1]))"
proof (induction c bk f width height lo printed rule: glyphs_B.induct)
  case (1 c bk f width height lo printed)
  show ?case
  proof (cases "lo = i")
    case True
    then show ?thesis by simp
  next
    case False
    with 1 have lt: "lo < i" "lo \<le> 126" by auto
    have g: "glyph_B c bk f width height lo = Inr (g lo)" using 1 lt by simp
    have "glyphs_B c bk f width height lo printed = glyphs_B c bk f width height (lo + 1) (printed @ g lo)"
      by (subst glyphs_B.simps) (simp add: g lt)
    also have "\<dots> = glyphs_B c bk f width height i ((printed @ g lo) @ concat (map g [lo + 1..i - 1]))"
      using 1 lt g by (intro "1.IH") auto
    also have "[lo..i - 1] = lo # [lo + 1..i - 1]" using lt by (simp add: upto_rec1)
    hence "(printed @ g lo) @ concat (map g [lo + 1..i - 1]) = printed @ concat (map g [lo..i - 1])" by simp
    finally show ?thesis .
  qed
qed

lemma glyphs_B_all:
  assumes "lo \<le> 127" "\<forall>j. lo \<le> j \<and> j \<le> 126 \<longrightarrow> glyph_B c bk f width height j = Inr (g j)"
  shows "glyphs_B c bk f width height lo printed = (None, printed @ concat (map g [lo..126]))"
proof -
  have "glyphs_B c bk f width height lo printed =
        glyphs_B c bk f width height 127 (printed @ concat (map g [lo..127 - 1]))"
    using assms by (intro glyphs_B_split) auto
  also have "\<dots> = (None, printed @ concat (map g [lo..126]))"
    by (subst glyphs_B.simps) simp
  finally show ?thesis .
qed

lemma glyphs_B_None:
  "glyphs_B c bk f width height lo printed = (None, res) \<Longrightarrow>
   (\<forall>j. lo \<le> j \<and> j \<le> 126 \<longrightarrow> \<not> isl (glyph_B c bk f width height j)) \<and>
   res = printed @ concat (map (\<lambda>j. projr (glyph_B c bk f width height j)) [lo..126])"
proof (induction c bk f width height lo printed rule: glyphs_B.induct)
  case (1 c bk f width height lo printed)
  show ?case
  proof (cases "lo \<le> 126")
    case False
    with "1.prems" show ?thesis by (subst (asm) glyphs_B.simps) auto
  next
    case True
    show ?thesis
    proof (cases "glyph_B c bk f width height lo")
      case (Inl e)
      with "1.prems" True show ?thesis by (subst (asm) glyphs_B.simps) simp
    next
      case (Inr items)
      with "1.prems" True
      have "glyphs_B c bk f width height (lo + 1) (printed @ items) = (None, res)"
        by (subst (asm) glyphs_B.simps) simp
      from "1.IH" [OF True Inr this]
      have ih: "\<forall>j. lo + 1 \<le> j \<and> j \<le> 126 \<longrightarrow> \<not> isl (glyph_B c bk f width height j)"
        "res = (printed @ items) @ concat (map (\<lambda>j. projr (glyph_B c bk f width height j)) [lo + 1..126])"
        by auto
      have all: "\<forall>j. lo \<le> j \<and> j \<le> 126 \<longrightarrow> \<not> isl (glyph_B c bk f width height j)"
      proof (intro allI impI)
        fix j assume "lo \<le> j \<and> j \<le> 126"
        then consider "j = lo" | "lo + 1 \<le> j \<and> j \<le> 126" by linarith
        then show "\<not> isl (glyph_B c bk f width height j)"
          using Inr ih(1) by cases auto
      qed
      have "[lo..126] = lo # [lo + 1..126]" using True by (simp add: upto_rec1)
      with ih(2) Inr all show ?thesis by simp
    qed
  qed
qed

lemma glyph_B_Inr:
  "glyph_B c bk f width height i = Inr items \<Longrightarrow>
   \<exists>dst. items = GlyphComment i # rows dst width height 0"
  by (auto simp: glyph_B_def Let_def split: sum.splits if_splits option.splits)

lemma glyph_B_Inl:
  "glyph_B c bk f width height i = Inl e \<Longrightarrow> (\<exists>x. e = Fatal x) \<or> (\<exists>p. e = Panic p)"
  by (auto simp: glyph_B_def Let_def split: sum.splits if_splits option.splits)

lemma rows_upto: "rows dst width height y = map (row dst width) [y..height - 1]"
proof (induction dst width height y rule: rows.induct)
  case (1 dst width height y)
  show ?case
  proof (cases "y < height")
    case True
    then have "[y..height - 1] = y # [y + 1..height - 1]" by (simp add: upto_rec1)
    with True "1.IH" show ?thesis by (subst rows.simps) simp
  next
    case False
    then show ?thesis by (subst rows.simps) simp
  qed
qed

lemma glyph_A_Inr:
  "glyph_A c bk f i = Inr (items, w, h) \<Longrightarrow>
   w = wrap64 (Width c * 8) \<and>
   (\<exists>m. Metrics bk f (PPEM c) = Inr m \<and> h = cell_height_A c m) \<and>
   (\<exists>dst. items = GlyphComment i # rows dst w h 0)"
  by (auto simp: glyph_A_def Let_def split: sum.splits if_splits option.splits)

lemma glyph_A_Inl:
  "glyph_A c bk f i = Inl e \<Longrightarrow> (\<exists>x. e = Fatal x) \<or> (\<exists>p. e = Panic p)"
  by (auto simp: glyph_A_def Let_def split: sum.splits if_splits option.splits)

lemma glyphs_A_None:
  "glyphs_A c bk f lo (printed, widthP, heightP) = (None, res, w, h) \<Longrightarrow>
   (\<forall>j. lo \<le> j \<and> j \<le> 126 \<longrightarrow> \<not> isl (glyph_A c bk f j)) \<and>
   res = printed @ concat (map (\<lambda>j. fst (projr (glyph_A c bk f j))) [lo..126]) \<and>
   (lo \<le> 126 \<longrightarrow> (w, h) = snd (projr (glyph_A c bk f 126)))"
proof (induction "nat (127 - lo)" arbitrary: lo printed widthP heightP)
  case 0
  then have "\<not> lo \<le> 126" by simp
  with "0.prems" show ?case by (subst (asm) glyphs_A.simps) auto
next
  case (Suc n)
  then have True: "lo \<le> 126" and n: "n = nat (127 - (lo + 1))" by linarith+
  show ?case
  proof (cases "glyph_A c bk f lo")
    case (Inl e)
    with Suc.prems True show ?thesis by (subst (asm) glyphs_A.simps) simp
  next
    case (Inr t)
    obtain items w' h' where t: "t = (items, w', h')" by (cases t) auto
    with Suc.prems True Inr
    have nxt: "glyphs_A c bk f (lo + 1) (printed @ items, w', h') = (None, res, w, h)"
      by (subst (asm) glyphs_A.simps) simp
    from Suc.hyps(1) [OF n nxt]
    have ih: "\<forall>j. lo + 1 \<le> j \<and> j \<le> 126 \<longrightarrow> \<not> isl (glyph_A c bk f j)"
      "res = (printed @ items) @ concat (map (\<lambda>j. fst (projr (glyph_A c bk f j))) [lo + 1..126])"
      "lo + 1 \<le> 126 \<longrightarrow> (w, h) = snd (projr (glyph_A c bk f 126))"
      by auto
    have all: "\<forall>j. lo \<le> j \<and> j \<le> 126 \<longrightarrow> \<not> isl (glyph_A c bk f j)"
    proof (intro allI impI)
      fix j assume "lo \<le> j \<and> j \<le> 126"
      then consider "j = lo" | "lo + 1 \<le> j \<and> j \<le> 126" by linarith
      then show "\<not> isl (glyph_A c bk f j)"
        using Inr ih(1) by cases auto
    qed
    have last: "(w, h) = snd (projr (glyph_A c bk f 126))"
    proof (cases "lo = 126")
      case True
      with nxt have "(w, h) = (w', h')" by (subst (asm) glyphs_A.simps) simp
      with True Inr t show ?thesis by simp
    next
      case False
      with \<open>lo \<le> 126\<close> ih(3) show ?thesis by simp
    qed
    have "[lo..126] = lo # [lo + 1..126]" using True by (simp add: upto_rec1)
    with ih(2) Inr t all last show ?thesis by simp
  qed
qed

lemma glyphs_B_Some:
  "glyphs_B c bk f width height lo printed = (Some e, res) \<Longrightarrow>
   (\<exists>x. e = Fatal x) \<or> (\<exists>p. e = Panic p)"
proof (induction "nat (127 - lo)" arbitrary: lo printed)
  case 0
  then have "\<not> lo \<le> 126" by simp
  with "0.prems" show ?case by (subst (asm) glyphs_B.simps) simp
next
  case (Suc n)
  then have le: "lo \<le> 126" and n: "n = nat (127 - (lo + 1))" by linarith+
  show ?case
  proof (cases "glyph_B c bk f width height lo")
    case (Inl e')
    with Suc.prems le have "e = e'" by (subst (asm) glyphs_B.simps) simp
    with glyph_B_Inl [OF Inl] show ?thesis by simp
  next
    case (Inr items)
    with Suc.prems le
    have "glyphs_B c bk f width height (lo + 1) (printed @ items) = (Some e, res)"
      by (subst (asm) glyphs_B.simps) simp
    from Suc.hyps(1) [OF n this] show ?thesis .
  qed
qed

lemma glyphs_A_Some:
  "glyphs_A c bk f lo (printed, widthP, heightP) = (Some e, res) \<Longrightarrow>
   (\<exists>x. e = Fatal x) \<or> (\<exists>p. e = Panic p)"
proof (induction "nat (127 - lo)" arbitrary: lo printed widthP heightP)
  case 0
  then have "\<not> lo \<le> 126" by simp
  with "0.prems" show ?case by (subst (asm) glyphs_A.simps) simp
next
  case (Suc n)
  then have le: "lo \<le> 126" and n: "n = nat (127 - (lo + 1))" by linarith+
  show ?case
  proof (cases "glyph_A c bk f lo")
    case (Inl e')
    with Suc.prems le have "e = e'" by (subst (asm) glyphs_A.simps) simp
    with glyph_A_Inl [OF Inl] show ?thesis by simp
  next
    case (Inr t)
    obtain items w h where t: "t = (items, w, h)" by (cases t) auto
    with Inr Suc.prems le
    have "glyphs_A c bk f (lo + 1) (printed @ items, w, h) = (Some e, res)"
      by (subst (asm) glyphs_A.simps) simp
    from Suc.hyps(1) [OF n this] show ?thesis .
  qed
qed

lemma glyphs_B_total:
  assumes "lo \<le> 127" "\<forall>j. lo \<le> j \<and> j \<le> 126 \<longrightarrow> \<not> isl (glyph_B c bk f width height j)"
  shows "glyphs_B c bk f width height lo printed =
         (None, printed @ concat (map (\<lambda>j. projr (glyph_B c bk f width height j)) [lo..126]))"
  using assms by (intro glyphs_B_all) (auto simp: isl_def)

lemma main_B_Done:
  assumes "ending (main_B fs bk c args err) = Done"
  shows "\<exists>f. out (main_B fs bk c args err) =
           [Prologue] @
           concat (map (\<lambda>j. projr (glyph_B c bk f (wrap64 (Width c * 8)) (Height c) j)) [32..126]) @
           [TableEnd, BasedOn (Font c), Descriptor (wrap64 (Width c * 8)) (Height c)] \<and>
         (\<forall>j. 32 \<le> j \<and> j \<le> 126 \<longrightarrow> \<not> isl (glyph_B c bk f (wrap64 (Width c * 8)) (Height c) j))"
proof -
  from assms obtain bytes f printed where
    "glyphs_B c bk f (wrap64 (Width c * 8)) (Height c) 32 [Prologue] = (None, printed)"
    "out (main_B fs bk c args err) = printed @ [TableEnd, BasedOn (Font c), Descriptor (wrap64 (Width c * 8)) (Height c)]"
    by (auto simp: main_B_def Let_def dest: glyphs_B_Some
          split: option.splits flags_error.splits if_splits sum.splits prod.splits)
  with glyphs_B_None [OF this(1)] show ?thesis by auto
qed

lemma main_B_run:
  assumes "fs (Font c) = Inr bytes" "Parse bk bytes = Inr f" "debug_B c bk f = None"
    "\<forall>j. 32 \<le> j \<and> j \<le> 126 \<longrightarrow> \<not> isl (glyph_B c bk f (wrap64 (Width c * 8)) (Height c) j)"
  shows "main_B fs bk c [] None =
         \<lparr>out = [Prologue] @
            concat (map (\<lambda>j. projr (glyph_B c bk f (wrap64 (Width c * 8)) (Height c) j)) [32..126]) @
            [TableEnd, BasedOn (Font c), Descriptor (wrap64 (Width c * 8)) (Height c)],
          reads = [Font c], ending = Done\<rparr>"
  using assms glyphs_B_total [of 32 c bk f "wrap64 (Width c * 8)" "Height c" "[Prologue]"]
  by (simp add: main_B_def Let_def)

subsection \<open>Successful runs\<close>

lemma glyphs_A_total:
  assumes "\<forall>j. lo \<le> j \<and> j \<le> 126 \<longrightarrow> \<not> isl (glyph_A c bk f j)"
  shows "fst (glyphs_A c bk f lo (printed, widthP, heightP)) = None"
  using assms
proof (induction "nat (127 - lo)" arbitrary: lo printed widthP heightP)
  case 0
  then have "\<not> lo \<le> 126" by simp
  then show ?case by (subst glyphs_A.simps) simp
next
  case (Suc n)
  then have le: "lo \<le> 126" and n: "n = nat (127 - (lo + 1))" by linarith+
  from Suc.prems le obtain items w h where g: "glyph_A c bk f lo = Inr (items, w, h)"
    by (cases "glyph_A c bk f lo") auto
  have "fst (glyphs_A c bk f (lo + 1) (printed @ items, w, h)) = None"
    using Suc.prems by (intro Suc.hyps(1) [OF n]) auto
  then show ?case using le g by (subst glyphs_A.simps) simp
qed

lemma main_A_Done:
  assumes "ending (main_A fs bk c args err) = Done"
  shows "\<exists>f m. Metrics bk f (PPEM c) = Inr m \<and>
           last (out (main_A fs bk c args err)) =
             Descriptor (wrap64 (Width c * 8)) (cell_height_A c m)"
proof -
  from assms obtain f printed w h where
    loop: "glyphs_A c bk f 32 ([Prologue], 0, 0) = (None, printed, w, h)" and
    out: "out (main_A fs bk c args err) = printed @ [TableEnd, BasedOn (Font c), Descriptor w h]"
    by (auto simp: main_A_def dest: glyphs_A_Some
          split: option.splits flags_error.splits if_splits sum.splits prod.splits)
  from glyphs_A_None [OF loop]
  have "\<not> isl (glyph_A c bk f 126)" "(w, h) = snd (projr (glyph_A c bk f 126))"
    by auto
  then obtain items where "glyph_A c bk f 126 = Inr (items, w, h)"
    by (cases "glyph_A c bk f 126") auto
  from glyph_A_Inr [OF this] out show ?thesis by auto
qed

lemma main_A_run:
  assumes "fs (Font c) = Inr bytes" "Parse bk bytes = Inr f"
    "\<forall>j. 32 \<le> j \<and> j \<le> 126 \<longrightarrow> \<not> isl (glyph_A c bk f j)"
  shows "ending (main_A fs bk c [] None) = Done"
proof -
  obtain e printed w h where r: "glyphs_A c bk f 32 ([Prologue], 0, 0) = (e, printed, w, h)"
    by (cases "glyphs_A c bk f 32 ([Prologue], 0, 0)") auto
  with glyphs_A_total [OF assms(3), of "[Prologue]" 0 0] have "e = None" by simp
  with r assms(1,2) show ?thesis by (simp add: main_A_def)
qed

lemma glyph_A_Inr_full:
  "glyph_A c bk f i = Inr t \<Longrightarrow>
   \<exists>m dst. Metrics bk f (PPEM c) = Inr m \<and>
     t = (GlyphComment i # rows dst (wrap64 (Width c * 8)) (cell_height_A c m) 0,
          wrap64 (Width c * 8), cell_height_A c m)"
  by (auto simp: glyph_A_def Let_def split: sum.splits if_splits option.splits)




subsection \<open>Runs that meet a missing glyph\<close>

lemma glyphs_B_later:
  assumes "GlyphIndex bk f i = Inr 0" "i \<le> 126"
  shows "lo \<le> i \<Longrightarrow> i \<le> j \<Longrightarrow>
         GlyphComment j \<in> set (snd (glyphs_B c bk f width height lo printed)) \<Longrightarrow>
         GlyphComment j \<in> set printed"
proof (induction "nat (i - lo)" arbitrary: lo printed)
  case 0
  then have "lo = i" by simp
  with assms have "glyphs_B c bk f width height lo printed =
      (Some (Fatal (NoGlyphIndex i)), printed)"
    by (subst glyphs_B.simps) (simp add: glyph_B_def)
  with "0.prems" show ?case by simp
next
  case (Suc n)
  then have lt: "lo < i" "lo \<le> 126" and n: "n = nat (i - (lo + 1))"
    using assms(2) by linarith+
  show ?case
  proof (cases "glyph_B c bk f width height lo")
    case (Inl e)
    with lt have "glyphs_B c bk f width height lo printed = (Some e, printed)"
      by (subst glyphs_B.simps) simp
    with Suc.prems show ?thesis by simp
  next
    case (Inr items)
    with lt have "glyphs_B c bk f width height lo printed =
        glyphs_B c bk f width height (lo + 1) (printed @ items)"
      by (subst glyphs_B.simps) simp
    with Suc.prems Suc.hyps(1) [OF n, of "printed @ items"] lt
    have "GlyphComment j \<in> set (printed @ items)" by simp
    moreover from glyph_B_Inr [OF Inr] obtain dst where
      "items = GlyphComment lo # rows dst width height 0" by blast
    then have "GlyphComment j \<notin> set items"
      using lt Suc.prems(2) by (auto simp: rows_upto row_def)
    ultimately show ?thesis by simp
  qed
qed

lemma glyphs_A_later:
  assumes "GlyphIndex bk f i = Inr 0" "i \<le> 126"
  shows "lo \<le> i \<Longrightarrow> i \<le> j \<Longrightarrow>
         GlyphComment j \<in> set (fst (snd (glyphs_A c bk f lo (printed, widthP, heightP)))) \<Longrightarrow>
         GlyphComment j \<in> set printed"
proof (induction "nat (i - lo)" arbitrary: lo printed widthP heightP)
  case 0
  then have "lo = i" by simp
  with assms have "glyphs_A c bk f lo (printed, widthP, heightP) =
      (Some (Fatal (NoGlyphIndex i)), printed, widthP, heightP)"
    by (subst glyphs_A.simps) (simp add: glyph_A_def)
  with "0.prems" show ?case by simp
next
  case (Suc n)
  then have lt: "lo < i" "lo \<le> 126" and n: "n = nat (i - (lo + 1))"
    using assms(2) by linarith+
  show ?case
  proof (cases "glyph_A c bk f lo")
    case (Inl e)
    with lt have "glyphs_A c bk f lo (printed, widthP, heightP) =
        (Some e, printed, widthP, heightP)"
      by (subst glyphs_A.simps) simp
    with Suc.prems show ?thesis by simp
  next
    case (Inr t)
    from glyph_A_Inr_full [OF Inr] obtain items w h dst where
      t: "t = (items, w, h)" and
      items: "items = GlyphComment lo # rows dst w h 0"
      by blast
    from Inr t lt have "glyphs_A c bk f lo (printed, widthP, heightP) =
        glyphs_A c bk f (lo + 1) (printed @ items, w, h)"
      by (subst glyphs_A.simps) simp
    with Suc.prems Suc.hyps(1) [OF n, of "printed @ items" w h] lt
    have "GlyphComment j \<in> set (printed @ items)" by simp
    moreover have "GlyphComment j \<notin> set items"
      using items lt Suc.prems(2) by (auto simp: rows_upto row_def)
    ultimately show ?thesis by simp
  qed
qed

lemma glyphs_B_stops:
  assumes "32 \<le> i" "i \<le> 126" "GlyphIndex bk f i = Inr 0"
  shows "fst (glyphs_B c bk f width height 32 printed) \<noteq> None"
proof
  assume "fst (glyphs_B c bk f width height 32 printed) = None"
  then obtain res where "glyphs_B c bk f width height 32 printed = (None, res)"
    by (cases "glyphs_B c bk f width height 32 printed") auto
  from glyphs_B_None [OF this] assms(1,2) have "\<not> isl (glyph_B c bk f width height i)"
    by blast
  with assms(3) show False by (simp add: glyph_B_def)
qed

lemma glyphs_A_stops:
  assumes "32 \<le> i" "i \<le> 126" "GlyphIndex bk f i = Inr 0"
  shows "fst (glyphs_A c bk f 32 (printed, widthP, heightP)) \<noteq> None"
proof
  assume "fst (glyphs_A c bk f 32 (printed, widthP, heightP)) = None"
  then obtain res w h where
    "glyphs_A c bk f 32 (printed, widthP, heightP) = (None, res, w, h)"
    by (cases "glyphs_A c bk f 32 (printed, widthP, heightP)") auto
  from glyphs_A_None [OF this] assms(1,2) have "\<not> isl (glyph_A c bk f i)"
    by blast
  with assms(3) show False by (simp add: glyph_A_def)
qed

lemma glyphs_A_split:
  "lo \<le> i \<Longrightarrow> i \<le> 127 \<Longrightarrow> (\<forall>j. lo \<le> j \<and> j < i \<longrightarrow> \<not> isl (glyph_A c bk f j)) \<Longrightarrow>
   \<exists>w h. glyphs_A c bk f lo (printed, widthP, heightP) =
     glyphs_A c bk f i
       (printed @ concat (map (\<lambda>j. fst (projr (glyph_A c bk f j))) [lo..i - 1]), w, h)"
proof (induction "nat (i - lo)" arbitrary: lo printed widthP heightP)
  case 0
  then have "lo = i" by simp
  then show ?case by auto
next
  case (Suc n)
  then have lt: "lo < i" "lo \<le> 126" and n: "n = nat (i - (lo + 1))" by linarith+
  from Suc.prems(3) lt obtain items w h where g: "glyph_A c bk f lo = Inr (items, w, h)"
    by (cases "glyph_A c bk f lo") auto
  have step: "glyphs_A c bk f lo (printed, widthP, heightP) =
      glyphs_A c bk f (lo + 1) (printed @ items, w, h)"
    using lt g by (subst glyphs_A.simps) simp
  have "\<exists>w' h'. glyphs_A c bk f (lo + 1) (printed @ items, w, h) =
     glyphs_A c bk f i
       ((printed @ items) @
          concat (map (\<lambda>j. fst (projr (glyph_A c bk f j))) [lo + 1..i - 1]), w', h')"
    using Suc.prems lt by (intro Suc.hyps(1) [OF n]) auto
  moreover have "[lo..i - 1] = lo # [lo + 1..i - 1]" using lt by (simp add: upto_rec1)
  ultimately show ?case using step g by simp
qed

lemma main_B_stops:
  assumes "32 \<le> i" "i \<le> 126" "fs (Font c) = Inr bytes" "Parse bk bytes = Inr f"
    "GlyphIndex bk f i = Inr 0"
  shows "ending (main_B fs bk c args err) \<noteq> Done \<and>
         (err = None \<longrightarrow>
            (\<exists>e. ending (main_B fs bk c args err) = Fatal e) \<or>
            (\<exists>p. ending (main_B fs bk c args err) = Panic p)) \<and>
         (\<forall>j\<ge>i. GlyphComment j \<notin> set (out (main_B fs bk c args err)))"
proof -
  let ?w = "wrap64 (Width c * 8)" and ?h = "Height c"
  obtain e printed where r: "glyphs_B c bk f ?w ?h 32 [Prologue] = (e, printed)"
    by (cases "glyphs_B c bk f ?w ?h 32 [Prologue]") auto
  with glyphs_B_stops [OF assms(1,2,5), of c ?w ?h "[Prologue]"] obtain e' where e: "e = Some e'"
    by auto
  from glyphs_B_Some [OF r [unfolded e]]
  have kind: "(\<exists>x. e' = Fatal x) \<or> (\<exists>p. e' = Panic p)" .
  have later: "GlyphComment j \<notin> set printed" if "i \<le> j" for j
    using glyphs_B_later [OF assms(5,2) assms(1) that, of c ?w ?h "[Prologue]"] r by auto
  show ?thesis
    using assms(3,4) r e later kind
    by (cases err; cases "args = []"; cases "debug_B c bk f")
       (auto simp: main_B_def split: flags_error.splits)
qed

lemma main_A_stops:
  assumes "32 \<le> i" "i \<le> 126" "fs (Font c) = Inr bytes" "Parse bk bytes = Inr f"
    "GlyphIndex bk f i = Inr 0"
  shows "ending (main_A fs bk c args err) \<noteq> Done \<and>
         (err = None \<longrightarrow>
            (\<exists>e. ending (main_A fs bk c args err) = Fatal e) \<or>
            (\<exists>p. ending (main_A fs bk c args err) = Panic p)) \<and>
         (\<forall>j\<ge>i. GlyphComment j \<notin> set (out (main_A fs bk c args err)))"
proof -
  obtain e printed w h where r: "glyphs_A c bk f 32 ([Prologue], 0, 0) = (e, printed, w, h)"
    by (cases "glyphs_A c bk f 32 ([Prologue], 0, 0)") auto
  with glyphs_A_stops [OF assms(1,2,5), of c "[Prologue]" 0 0] obtain e' where e: "e = Some e'"
    by auto
  from glyphs_A_Some [OF r [unfolded e]]
  have kind: "(\<exists>x. e' = Fatal x) \<or> (\<exists>p. e' = Panic p)" .
  have later: "GlyphComment j \<notin> set printed" if "i \<le> j" for j
    using glyphs_A_later [OF assms(5,2) assms(1) that, of c "[Prologue]" 0 0] r by auto
  show ?thesis
    using assms(3,4) r e later kind
    by (cases err; cases "args = []") (auto simp: main_A_def split: flags_error.splits)
qed

lemma main_B_at:
  assumes "32 \<le> i" "i \<le> 126" "fs (Font c) = Inr bytes" "Parse bk bytes = Inr f"
    "GlyphIndex bk f i = Inr 0" "debug_B c bk f = None"
    "\<forall>j. 32 \<le> j \<and> j < i \<longrightarrow> \<not> isl (glyph_B c bk f (wrap64 (Width c * 8)) (Height c) j)"
  shows "ending (main_B fs bk c [] None) = Fatal (NoGlyphIndex i)"
proof -
  let ?w = "wrap64 (Width c * 8)" and ?h = "Height c"
  let ?g = "\<lambda>j. projr (glyph_B c bk f ?w ?h j)"
  have "glyphs_B c bk f ?w ?h 32 [Prologue] =
        glyphs_B c bk f ?w ?h i ([Prologue] @ concat (map ?g [32..i - 1]))"
    using assms(1,2,7) by (intro glyphs_B_split) (auto simp: isl_def)
  also have "\<dots> = (Some (Fatal (NoGlyphIndex i)), [Prologue] @ concat (map ?g [32..i - 1]))"
    using assms(2,5) by (subst glyphs_B.simps) (simp add: glyph_B_def)
  finally show ?thesis using assms(3,4,6) by (simp add: main_B_def)
qed

lemma main_A_at:
  assumes "32 \<le> i" "i \<le> 126" "fs (Font c) = Inr bytes" "Parse bk bytes = Inr f"
    "GlyphIndex bk f i = Inr 0"
    "\<forall>j. 32 \<le> j \<and> j < i \<longrightarrow> \<not> isl (glyph_A c bk f j)"
  shows "ending (main_A fs bk c [] None) = Fatal (NoGlyphIndex i)"
proof -
  let ?g = "\<lambda>j. fst (projr (glyph_A c bk f j))"
  obtain w h where "glyphs_A c bk f 32 ([Prologue], 0, 0) =
        glyphs_A c bk f i ([Prologue] @ concat (map ?g [32..i - 1]), w, h)"
    using glyphs_A_split [of 32 i c bk f "[Prologue]" 0 0] assms(1,2,6) by auto
  also have "\<dots> = (Some (Fatal (NoGlyphIndex i)), [Prologue] @ concat (map ?g [32..i - 1]), w, h)"
    using assms(2,5) by (subst glyphs_A.simps) (simp add: glyph_A_def)
  finally show ?thesis using assms(3,4) by (simp add: main_A_def)
qed

subsection \<open>Segments of other kinds\<close>

lemma seg_cmd_None: "seg_cmd bk ox oy seg = None \<longleftrightarrow> \<not> supported (Op seg)"
  by (simp add: seg_cmd_def supported_def)

lemma segments_agree:
  "\<forall>seg \<in> set segs. supported (Op seg) \<Longrightarrow>
   segments_B bk ox oy segs r = Inr (segments_A bk ox oy segs r)"
proof (induction segs arbitrary: r)
  case Nil
  then show ?case by simp
next
  case (Cons seg segs)
  then obtain cmd where "seg_cmd bk ox oy seg = Some cmd"
    using seg_cmd_None [of bk ox oy seg] by (cases "seg_cmd bk ox oy seg") auto
  with Cons show ?case by simp
qed



subsection \<open>The example inputs\<close>

lemma demo_fs_simps:
  "demo_fs ''font.ttf'' = Inr [0, 1, 0, 0]"
  "demo_fs ''missing.ttf'' = Inl ''no such file or directory''"
  by (simp_all add: demo_fs_def)

lemma demo_bk_simps:
  "Parse demo_bk [0, 1, 0, 0] = Inr ()"
  "GlyphIndex demo_bk f r = Inr 7"
  "Metrics demo_bk f ppem = Inr \<lparr>Height_M = 128, CapHeight_M = 64\<rparr>"
  "LoadGlyph demo_bk f x ppem = Inr demo_outline"
  "NewRasterizer demo_bk 16 1 = None"
  "NewRasterizer demo_bk 16 2 = None"
  "Draw demo_bk w h path = Inr (\<lambda>x y. if x < 8 then 255 else 0)"
  by (simp_all add: demo_bk_def)

lemma holey_bk_simps:
  "Parse holey_bk [0, 1, 0, 0] = Inr ()"
  "GlyphIndex holey_bk f r = (if r = 100 then Inr 0 else Inr 7)"
  "Metrics holey_bk f ppem = Inr \<lparr>Height_M = 128, CapHeight_M = 64\<rparr>"
  "LoadGlyph holey_bk f x ppem = Inr demo_outline"
  "NewRasterizer holey_bk 16 1 = None"
  "NewRasterizer holey_bk 16 2 = None"
  "Draw holey_bk w h path = Inr (\<lambda>x y. if x < 8 then 255 else 0)"
  by (simp_all add: holey_bk_def demo_bk_def)


lemma demo_conf_simps:
  "Font demo_conf_B = ''font.ttf''" "Width demo_conf_B = 2" "Height demo_conf_B = 1"
  "Debug demo_conf_B = False"
  "Font demo_conf_A = ''font.ttf''" "Width demo_conf_A = 2" "ReduceHeight demo_conf_A = - 1"
  by (simp_all add: demo_conf_B_def demo_conf_A_def)

lemma demo_sizes:
  "wrap64 (2 * 8) = 16" "wrap64 16 = 16"
  "cell_height_A demo_conf_A \<lparr>Height_M = 128, CapHeight_M = 64\<rparr> = 2"
  by (simp_all add: wrap64_def cell_height_A_def Ceil_def go_quot_def demo_conf_simps)

lemma demo_outline_supported: "\<forall>seg \<in> set demo_outline. supported (Op seg)"
  by (simp add: demo_outline_def supported_def SegmentOpMoveTo_def SegmentOpLineTo_def
        SegmentOpQuadTo_def SegmentOpCubeTo_def)


lemma demo_glyph_B: "\<not> isl (glyph_B c demo_bk f 16 1 j)"
  by (simp add: glyph_B_def demo_bk_simps Let_def segments_agree [OF demo_outline_supported])

lemma holey_glyph_B: "j \<noteq> 100 \<Longrightarrow> \<not> isl (glyph_B c holey_bk f 16 1 j)"
  by (simp add: glyph_B_def holey_bk_simps Let_def segments_agree [OF demo_outline_supported])

lemma demo_main_B: "ending (main_B demo_fs demo_bk demo_conf_B [] None) = Done"
  using main_B_run [of demo_fs demo_conf_B "[0, 1, 0, 0]" demo_bk "()"] demo_glyph_B
  by (simp add: demo_fs_simps demo_conf_simps demo_bk_simps debug_B_def demo_sizes)

lemma demo_glyph_A: "\<not> isl (glyph_A demo_conf_A demo_bk f j)"
  by (simp add: glyph_A_def demo_bk_simps Let_def demo_sizes demo_conf_simps)

lemma holey_glyph_A: "j \<noteq> 100 \<Longrightarrow> \<not> isl (glyph_A demo_conf_A holey_bk f j)"
  by (simp add: glyph_A_def holey_bk_simps Let_def demo_sizes demo_conf_simps)

lemma demo_main_A: "ending (main_A demo_fs demo_bk demo_conf_A [] None) = Done"
  using main_A_run [of demo_fs demo_conf_A "[0, 1, 0, 0]" demo_bk "()"] demo_glyph_A
  by (simp add: demo_fs_simps demo_conf_simps demo_bk_simps)

subsection \<open>Go integers\<close>

lemma wrap64_id: "- (2 ^ 63) \<le> x \<Longrightarrow> x < 2 ^ 63 \<Longrightarrow> wrap64 x = x"
  unfolding wrap64_def by (simp add: signed_take_bit_int_eq_self)

lemma Ceil_bounds: "- (2 ^ 31) \<le> Ceil x \<and> Ceil x < 2 ^ 31"
  unfolding Ceil_def using sint_range_size [of "signed_drop_bit 6 (x + 0x3f)"]
  by (simp add: word_size)

lemma Ceil_exact: "sint x + 63 < 2 ^ 31 \<Longrightarrow> Ceil x = (sint x + 63) div 64"
proof -
  assume a: "sint x + 63 < 2 ^ 31"
  have lo: "- (2 ^ 31) \<le> sint x" using sint_range_size [of x] by (simp add: word_size)
  have "sint (x + 0x3f) = signed_take_bit 31 (sint x + 63)"
    by (simp add: sint_word_ariths)
  also have "\<dots> = sint x + 63"
    using a lo by (intro signed_take_bit_int_eq_self) auto
  finally have "sint (x + 0x3f) = sint x + 63" .
  then show ?thesis
    by (simp add: Ceil_def sint_signed_drop_bit_eq drop_bit_eq_div)
qed

lemma go_quot_nonneg: "0 \<le> a \<Longrightarrow> 0 < b \<Longrightarrow> go_quot a b = a div b"
  by (cases "a = 0") (simp_all add: go_quot_def)

lemma go_quot_neg: "a < 0 \<Longrightarrow> 0 < b \<Longrightarrow> go_quot a b = - ((- a) div b)"
  by (simp add: go_quot_def)

section \<open>The claims\<close>

text \<open>
  C1 (as amended). In a run that reaches the end of \<open>main\<close>, the last thing printed is the
  \<open>sFONT\<close> descriptor, and its first number is the cell width in pixels: eight times the
  \<open>width\<close> flag, in Go's 64-bit \<open>int\<close> arithmetic (exactly eight times the flag when the
  flag is between \<open>-2^60\<close> and \<open>2^60\<close>). Its second number is the cell height in pixel
  rows: the \<open>height\<close> flag in variant B, the height derived from the metrics in variant A.
\<close>

theorem descriptor_declares_pixel_width:
  "(ending (main_B fsB bkB cB argsB errB) = Done \<longrightarrow>
      last (out (main_B fsB bkB cB argsB errB)) =
        Descriptor (wrap64 (Width cB * 8)) (Height cB)) \<and>
   (ending (main_A fsA bkA cA argsA errA) = Done \<longrightarrow>
      (\<exists>f m. Metrics bkA f (PPEM cA) = Inr m \<and>
         last (out (main_A fsA bkA cA argsA errA)) =
           Descriptor (wrap64 (Width cA * 8)) (cell_height_A cA m))) \<and>
   (- (2 ^ 60) \<le> w \<and> w < 2 ^ 60 \<longrightarrow> wrap64 (w * 8) = w * 8)"
proof (intro conjI impI)
  assume "ending (main_B fsB bkB cB argsB errB) = Done"
  from main_B_Done [OF this]
  show "last (out (main_B fsB bkB cB argsB errB)) = Descriptor (wrap64 (Width cB * 8)) (Height cB)"
    by auto
next
  assume "ending (main_A fsA bkA cA argsA errA) = Done"
  from main_A_Done [OF this]
  show "\<exists>f m. Metrics bkA f (PPEM cA) = Inr m \<and>
         last (out (main_A fsA bkA cA argsA errA)) =
           Descriptor (wrap64 (Width cA * 8)) (cell_height_A cA m)" .
next
  assume "- (2 ^ 60) \<le> w \<and> w < 2 ^ 60"
  then show "wrap64 (w * 8) = w * 8" by (intro wrap64_id) auto
qed

theorem descriptor_declares_pixel_width_witness:
  "ending (main_B demo_fs demo_bk demo_conf_B [] None) = Done \<and>
   last (out (main_B demo_fs demo_bk demo_conf_B [] None)) = Descriptor 16 1 \<and>
   ending (main_A demo_fs demo_bk demo_conf_A [] None) = Done \<and>
   last (out (main_A demo_fs demo_bk demo_conf_A [] None)) = Descriptor 16 2 \<and>
   wrap64 (2 * 8) = 16"
  using descriptor_declares_pixel_width
    [of demo_fs demo_bk demo_conf_B "[]" None demo_fs demo_bk demo_conf_A "[]" None 2]
    demo_main_B demo_main_A
  by (simp add: demo_conf_simps demo_bk_simps cell_height_A_def Ceil_def go_quot_def wrap64_def)

text \<open>
  C1 as stated fails: with the \<open>width\<close> flag 2 (two bytes) the descriptor declares the
  width 16.
\<close>

theorem descriptor_width_counterexample:
  "Width demo_conf_B = 2 \<and>
   last (out (main_B demo_fs demo_bk demo_conf_B [] None)) = Descriptor 16 1 \<and>
   render (Descriptor 16 1) =
     ''sFONT FontCustom = {\<newline>  FontCustom_Table,\<newline>  16, /* Width */\<newline>  1, /* Height */\<newline>};\<newline>''"
proof -
  have "last (out (main_B demo_fs demo_bk demo_conf_B [] None)) = Descriptor 16 1"
    using main_B_Done [OF demo_main_B] by (auto simp: demo_conf_simps wrap64_def)
  moreover have "show_int 16 = ''16''" "show_int 1 = ''1''"
    by (simp_all add: show_int_def show_nat.simps digit_def)
  ultimately show ?thesis by (simp add: demo_conf_simps)
qed




text \<open>
  C3 (the code departs from the claim). When the font file cannot be read, both variants
  print nothing, but \<open>main\<close> returns after \<open>log.Println(err)\<close>: the exit status is 0,
  not 1.
\<close>

theorem unreadable_font_exits_0:
  "main_B demo_fs demo_bk (demo_conf_B\<lparr>Font := ''missing.ttf''\<rparr>) [] None =
     \<lparr>out = [], reads = [''missing.ttf''], ending = ReadFailed ''no such file or directory''\<rparr> \<and>
   main_A demo_fs demo_bk (demo_conf_A\<lparr>Font := ''missing.ttf''\<rparr>) [] None =
     \<lparr>out = [], reads = [''missing.ttf''], ending = ReadFailed ''no such file or directory''\<rparr> \<and>
   exit_code (ReadFailed ''no such file or directory'') = 0 \<and>
   stdout (main_B demo_fs demo_bk (demo_conf_B\<lparr>Font := ''missing.ttf''\<rparr>) [] None) = []"
  by (simp add: main_B_def main_A_def demo_fs_simps stdout_def)

text \<open>
  C4. For every pixel \<open>x\<close> of a row of width \<open>width\<close>, the packed row has a byte for the
  pixel, and the bit of the pixel (bit \<open>7 - x mod 8\<close> of byte \<open>x div 8\<close>) is 1 exactly
  when the alpha value of the pixel is at least 64. An alpha value of 63 packs to 0, an
  alpha value of 64 packs to 1.
\<close>

theorem threshold_at_64:
  assumes "0 \<le> x" "x < width"
  shows "nat x div 8 < length (packed_row dst width y) \<and>
         (bit (packed_row dst width y ! (nat x div 8)) (7 - nat x mod 8) \<longleftrightarrow> 64 \<le> dst x y) \<and>
         (dst x y = 63 \<longrightarrow> \<not> bit (packed_row dst width y ! (nat x div 8)) (7 - nat x mod 8)) \<and>
         (dst x y = 64 \<longrightarrow> bit (packed_row dst width y ! (nat x div 8)) (7 - nat x mod 8))"
proof -
  have len: "nat x div 8 < length (packed_row dst width y)"
    using assms by (simp add: length_packed_row; linarith)
  then have "nat x < 8 * length (packed_row dst width y)" by linarith
  from packed_row_bit [OF this] assms
  have "bit (packed_row dst width y ! (nat x div 8)) (7 - nat x mod 8) \<longleftrightarrow> 64 \<le> dst x y"
    by simp
  with len show ?thesis by auto
qed

theorem threshold_at_64_witness:
  "edge_img 0 0 = 63 \<and> \<not> bit (packed_row edge_img 8 0 ! 0) 7 \<and>
   edge_img 1 0 = 64 \<and> bit (packed_row edge_img 8 0 ! 0) 6"
  using threshold_at_64 [of 0 8 edge_img 0] threshold_at_64 [of 1 8 edge_img 0]
  by (simp add: edge_img_def)



text \<open>
  C6. The packed row has one byte for each group of eight pixels, in the order of the
  pixels, the last group filled up with zero bits; within byte \<open>j\<close> the pixel \<open>8 * j + k\<close>,
  the \<open>k\<close>-th of its group from the left, is bit \<open>7 - k\<close>: the leftmost pixel is the most
  significant bit. So a row of at least eight pixels whose eight leftmost pixels have an
  alpha value of at least 64 and whose other pixels have the alpha value 0 is packed
  into the byte \<open>0xFF\<close> followed by zero bytes only.
\<close>

theorem msb_first:
  "length (packed_row dst width y) = (nat width + 7) div 8 \<and>
   (\<forall>j k. j < length (packed_row dst width y) \<and> k < 8 \<longrightarrow>
      (bit (packed_row dst width y ! j) (7 - k) \<longleftrightarrow>
         int (8 * j + k) < width \<and> 64 \<le> dst (int (8 * j + k)) y)) \<and>
   (8 \<le> width \<and> (\<forall>x. 0 \<le> x \<and> x < 8 \<longrightarrow> 64 \<le> dst x y) \<and>
    (\<forall>x. 8 \<le> x \<and> x < width \<longrightarrow> dst x y = 0) \<longrightarrow>
      packed_row dst width y = 0xFF # replicate ((nat width + 7) div 8 - 1) 0)"
proof (intro conjI allI impI)
  show "length (packed_row dst width y) = (nat width + 7) div 8"
    by (rule length_packed_row)
next
  fix j k :: nat
  assume jk: "j < length (packed_row dst width y) \<and> k < 8"
  let ?n = "8 * j + k"
  have n: "?n < 8 * length (packed_row dst width y)" "?n div 8 = j" "?n mod 8 = k"
    using jk by auto
  from packed_row_bit [OF n(1)] n
  show "bit (packed_row dst width y ! j) (7 - k) \<longleftrightarrow>
         int (8 * j + k) < width \<and> 64 \<le> dst (int (8 * j + k)) y"
    by simp
next
  assume a: "8 \<le> width \<and> (\<forall>x. 0 \<le> x \<and> x < 8 \<longrightarrow> 64 \<le> dst x y) \<and>
    (\<forall>x. 8 \<le> x \<and> x < width \<longrightarrow> dst x y = 0)"
  show "packed_row dst width y = 0xFF # replicate ((nat width + 7) div 8 - 1) 0"
  proof (rule nth_equalityI)
    show len: "length (packed_row dst width y) =
               length (0xFF # replicate ((nat width + 7) div 8 - 1) (0::byte))"
      using a by (simp add: length_packed_row; linarith)
    fix j assume j: "j < length (packed_row dst width y)"
    show "packed_row dst width y ! j = (0xFF # replicate ((nat width + 7) div 8 - 1) 0) ! j"
    proof (rule bit_word_eqI)
      fix k assume "k < LENGTH(8)"
      then have k: "k < 8" by simp
      define m where "m = 7 - k"
      have m: "m < 8" "7 - m = k" using k by (simp_all add: m_def)
      let ?n = "8 * j + m"
      have n: "?n < 8 * length (packed_row dst width y)" "?n div 8 = j" "7 - ?n mod 8 = k"
        using j m by auto
      from packed_row_bit [OF n(1)] n
      have b: "bit (packed_row dst width y ! j) k \<longleftrightarrow> int ?n < width \<and> 64 \<le> dst (int ?n) y"
        by simp
      show "bit (packed_row dst width y ! j) k =
            bit ((0xFF # replicate ((nat width + 7) div 8 - 1) (0::byte)) ! j) k"
      proof (cases j)
        case 0
        then have "0 \<le> int ?n \<and> int ?n < 8" using m by simp
        with a have "int ?n < width \<and> 64 \<le> dst (int ?n) y" by force
        moreover have "bit (0xFF :: byte) k"
        proof -
          have "(0xFF :: byte) = - 1" by simp
          then show ?thesis using k by (simp only: bit_minus_1_iff possible_bit_word) simp
        qed
        ultimately show ?thesis using b 0 by simp
      next
        case (Suc i)
        then have "8 \<le> int ?n" by simp
        with a have "\<not> (int ?n < width \<and> 64 \<le> dst (int ?n) y)" by auto
        moreover have "i < (nat width + 7) div 8 - 1" using j Suc len by simp
        ultimately show ?thesis using b Suc by simp
      qed
    qed
  qed
qed

theorem msb_first_witness:
  "packed_row left8_img 16 0 = [0xFF, 0x00] \<and>
   length (packed_row edge_img 8 0) = 1 \<and>
   edge_img 1 0 = 64 \<and> edge_img 6 0 = 0 \<and>
   bit (packed_row edge_img 8 0 ! 0) 6 \<and> \<not> bit (packed_row edge_img 8 0 ! 0) 1"
proof -
  have "packed_row left8_img 16 0 = [0xFF, 0x00]"
    using msb_first [of left8_img 16 0] by (simp add: left8_img_def)
  moreover have len: "length (packed_row edge_img 8 0) = 1"
    using msb_first [of edge_img 8 0] by simp
  moreover have all: "j < length (packed_row edge_img 8 0) \<Longrightarrow> k < 8 \<Longrightarrow>
      (bit (packed_row edge_img 8 0 ! j) (7 - k) \<longleftrightarrow>
         int (8 * j + k) < 8 \<and> 64 \<le> edge_img (int (8 * j + k)) 0)" for j k
    using msb_first [of edge_img 8 0] by blast
  moreover have "bit (packed_row edge_img 8 0 ! 0) 6"
    using all [of 0 1] len by (simp add: edge_img_def)
  moreover have "\<not> bit (packed_row edge_img 8 0 ! 0) 1"
    using all [of 0 6] len by (simp add: edge_img_def)
  ultimately show ?thesis by (simp add: edge_img_def)
qed

text \<open>
  C7. In both variants, when the loop over the runes arrives at a rune \<open>i\<close> between 32
  and 126 for which the backend returns the glyph index 0, it stops there with the fatal
  error of the missing glyph and what has been printed stays as it is. So a run on a font
  without a glyph for \<open>i\<close> never reaches the end of \<open>main\<close> and prints no glyph comment
  for \<open>i\<close> or any later rune; when the flag parser reported no error it ends with
  \<open>log.Fatal\<close> or with a panic of the rasteriser at an earlier rune; and when it gets to
  the loop and every rune before \<open>i\<close> is processed without error or panic, it ends with
  the fatal error of the missing glyph at \<open>i\<close>, exit status 1.
\<close>

theorem missing_glyph_is_fatal:
  assumes "32 \<le> i" "i \<le> 126"
    and "fsB (Font cB) = Inr bytesB" "Parse bkB bytesB = Inr fB" "GlyphIndex bkB fB i = Inr 0"
    and "fsA (Font cA) = Inr bytesA" "Parse bkA bytesA = Inr fA" "GlyphIndex bkA fA i = Inr 0"
  shows "glyphs_B cB bkB fB width height i printed = (Some (Fatal (NoGlyphIndex i)), printed) \<and>
         glyphs_A cA bkA fA i (printed, widthP, heightP) =
           (Some (Fatal (NoGlyphIndex i)), printed, widthP, heightP) \<and>
         ending (main_B fsB bkB cB args err) \<noteq> Done \<and>
         (err = None \<longrightarrow>
            (\<exists>e. ending (main_B fsB bkB cB args err) = Fatal e) \<or>
            (\<exists>p. ending (main_B fsB bkB cB args err) = Panic p)) \<and>
         (\<forall>j\<ge>i. GlyphComment j \<notin> set (out (main_B fsB bkB cB args err))) \<and>
         (debug_B cB bkB fB = None \<and>
          (\<forall>j. 32 \<le> j \<and> j < i \<longrightarrow>
             \<not> isl (glyph_B cB bkB fB (wrap64 (Width cB * 8)) (Height cB) j)) \<longrightarrow>
            ending (main_B fsB bkB cB [] None) = Fatal (NoGlyphIndex i) \<and>
            exit_code (ending (main_B fsB bkB cB [] None)) = 1) \<and>
         ending (main_A fsA bkA cA args err) \<noteq> Done \<and>
         (err = None \<longrightarrow>
            (\<exists>e. ending (main_A fsA bkA cA args err) = Fatal e) \<or>
            (\<exists>p. ending (main_A fsA bkA cA args err) = Panic p)) \<and>
         (\<forall>j\<ge>i. GlyphComment j \<notin> set (out (main_A fsA bkA cA args err))) \<and>
         ((\<forall>j. 32 \<le> j \<and> j < i \<longrightarrow> \<not> isl (glyph_A cA bkA fA j)) \<longrightarrow>
            ending (main_A fsA bkA cA [] None) = Fatal (NoGlyphIndex i) \<and>
            exit_code (ending (main_A fsA bkA cA [] None)) = 1)"
proof -
  have "glyphs_B cB bkB fB width height i printed = (Some (Fatal (NoGlyphIndex i)), printed)"
    using assms by (subst glyphs_B.simps) (simp add: glyph_B_def)
  moreover have "glyphs_A cA bkA fA i (printed, widthP, heightP) =
           (Some (Fatal (NoGlyphIndex i)), printed, widthP, heightP)"
    using assms by (subst glyphs_A.simps) (simp add: glyph_A_def)
  moreover have "ending (main_B fsB bkB cB [] None) = Fatal (NoGlyphIndex i)"
    if "debug_B cB bkB fB = None"
      "\<forall>j. 32 \<le> j \<and> j < i \<longrightarrow>
         \<not> isl (glyph_B cB bkB fB (wrap64 (Width cB * 8)) (Height cB) j)"
    using assms that main_B_at [of i fsB cB bytesB bkB fB] by simp
  moreover have "ending (main_A fsA bkA cA [] None) = Fatal (NoGlyphIndex i)"
    if "\<forall>j. 32 \<le> j \<and> j < i \<longrightarrow> \<not> isl (glyph_A cA bkA fA j)"
    using assms that main_A_at [of i fsA cA bytesA bkA fA] by simp
  ultimately show ?thesis
    using assms main_B_stops [of i fsB cB bytesB bkB fB args err]
      main_A_stops [of i fsA cA bytesA bkA fA args err]
    by simp
qed

theorem missing_glyph_is_fatal_witness:
  "glyphs_B demo_conf_B holey_bk () 16 1 100 [Prologue] =
     (Some (Fatal (NoGlyphIndex 100)), [Prologue]) \<and>
   glyphs_A demo_conf_A holey_bk () 100 ([Prologue], 0, 0) =
     (Some (Fatal (NoGlyphIndex 100)), [Prologue], 0, 0) \<and>
   ending (main_B demo_fs holey_bk demo_conf_B [] None) = Fatal (NoGlyphIndex 100) \<and>
   exit_code (ending (main_B demo_fs holey_bk demo_conf_B [] None)) = 1 \<and>
   GlyphComment 100 \<notin> set (out (main_B demo_fs holey_bk demo_conf_B [] None)) \<and>
   GlyphComment 126 \<notin> set (out (main_B demo_fs holey_bk demo_conf_B [] None)) \<and>
   ending (main_A demo_fs holey_bk demo_conf_A [] None) = Fatal (NoGlyphIndex 100) \<and>
   exit_code (ending (main_A demo_fs holey_bk demo_conf_A [] None)) = 1 \<and>
   GlyphComment 100 \<notin> set (out (main_A demo_fs holey_bk demo_conf_A [] None))"
  using missing_glyph_is_fatal [of 100 demo_fs demo_conf_B "[0, 1, 0, 0]" holey_bk "()"
      demo_fs demo_conf_A "[0, 1, 0, 0]" holey_bk "()" 16 1 "[Prologue]" 0 0 "[]" None]
    holey_glyph_B [of _ demo_conf_B "()"] holey_glyph_A [of _ "()"]
  by (simp add: holey_bk_simps demo_fs_simps demo_conf_simps debug_B_def demo_sizes)

text \<open>
  C8 (as amended). In variant A, when \<open>reducedHeight\<close> is negative, the cell height is
  the quotient of three times \<open>Ceil\<close> of the metrics height by four, rounded towards zero,
  plus one: the floor of the quotient plus one when \<open>Ceil\<close> of the metrics height is not
  negative, and one minus the floor of the quotient of the absolute value when it is
  negative. When \<open>reducedHeight\<close> is not negative, the cell height is \<open>Ceil\<close> of the
  metrics height minus \<open>reducedHeight\<close>, in Go's 64-bit \<open>int\<close> arithmetic (the exact
  difference when \<open>reducedHeight\<close> is at most \<open>2^62\<close>).
\<close>

theorem cell_height_from_metrics:
  "(ReduceHeight c < 0 \<and> 0 \<le> Ceil (Height_M m) \<longrightarrow>
      cell_height_A c m = (Ceil (Height_M m) * 3) div 4 + 1) \<and>
   (ReduceHeight c < 0 \<and> Ceil (Height_M m) < 0 \<longrightarrow>
      cell_height_A c m = - ((- (Ceil (Height_M m) * 3)) div 4) + 1) \<and>
   (0 \<le> ReduceHeight c \<longrightarrow>
      cell_height_A c m = wrap64 (Ceil (Height_M m) - ReduceHeight c)) \<and>
   (0 \<le> ReduceHeight c \<and> ReduceHeight c \<le> 2 ^ 62 \<longrightarrow>
      cell_height_A c m = Ceil (Height_M m) - ReduceHeight c)"
proof -
  define h where "h = Ceil (Height_M m)"
  have hb: "- (2 ^ 31) \<le> h" "h < 2 ^ 31" using Ceil_bounds [of "Height_M m"] by (simp_all add: h_def)
  have w3: "wrap64 (h * 3) = h * 3" using hb by (intro wrap64_id) auto
  have pos: "cell_height_A c m = (h * 3) div 4 + 1" if "ReduceHeight c < 0" "0 \<le> h"
  proof -
    have q: "go_quot (h * 3) 4 = (h * 3) div 4" using that by (intro go_quot_nonneg) auto
    have "0 \<le> (h * 3) div 4" "(h * 3) div 4 \<le> h * 3" using that by auto
    then have "wrap64 ((h * 3) div 4 + 1) = (h * 3) div 4 + 1"
      using hb by (intro wrap64_id) auto
    with that q w3 show ?thesis by (simp add: cell_height_A_def h_def [symmetric] Let_def)
  qed
  have neg: "cell_height_A c m = - ((- (h * 3)) div 4) + 1" if "ReduceHeight c < 0" "h < 0"
  proof -
    have q: "go_quot (h * 3) 4 = - ((- (h * 3)) div 4)" using that by (intro go_quot_neg) auto
    have "0 \<le> (- (h * 3)) div 4" "(- (h * 3)) div 4 \<le> - (h * 3)" using that by auto
    then have "wrap64 (- ((- (h * 3)) div 4) + 1) = - ((- (h * 3)) div 4) + 1"
      using hb by (intro wrap64_id) auto
    with that q w3 show ?thesis by (simp add: cell_height_A_def h_def [symmetric] Let_def)
  qed
  have sub: "cell_height_A c m = wrap64 (h - ReduceHeight c)" if "0 \<le> ReduceHeight c"
    using that by (simp add: cell_height_A_def h_def [symmetric] Let_def)
  have sub': "cell_height_A c m = h - ReduceHeight c"
    if "0 \<le> ReduceHeight c" "ReduceHeight c \<le> 2 ^ 62"
  proof -
    have "wrap64 (h - ReduceHeight c) = h - ReduceHeight c"
      using that hb by (intro wrap64_id) auto
    with sub that show ?thesis by simp
  qed
  from pos neg sub sub' show ?thesis unfolding h_def by blast
qed

theorem cell_height_from_metrics_witness:
  "cell_height_A demo_conf_A \<lparr>Height_M = 128, CapHeight_M = 64\<rparr> = 2 \<and>
   cell_height_A demo_conf_A low_metrics = 1 \<and>
   cell_height_A (demo_conf_A\<lparr>ReduceHeight := 1\<rparr>) \<lparr>Height_M = 128, CapHeight_M = 64\<rparr> = 1"
  using cell_height_from_metrics [of demo_conf_A "\<lparr>Height_M = 128, CapHeight_M = 64\<rparr>"]
    cell_height_from_metrics [of demo_conf_A low_metrics]
    cell_height_from_metrics [of "demo_conf_A\<lparr>ReduceHeight := 1\<rparr>"
      "\<lparr>Height_M = 128, CapHeight_M = 64\<rparr>"]
  by (simp add: demo_conf_simps low_metrics_def Ceil_def)

text \<open>
  C8 as stated fails where \<open>Ceil\<close> of the metrics height is negative: for a height of
  minus one pixel the cell height is 1, and the floor of \<open>-3 / 4\<close> plus one is 0.
\<close>

theorem cell_height_floor_counterexample:
  "ReduceHeight demo_conf_A < 0 \<and>
   Ceil (Height_M low_metrics) = - 1 \<and>
   cell_height_A demo_conf_A low_metrics = 1 \<and>
   (Ceil (Height_M low_metrics) * 3) div 4 + 1 = 0"
  by (simp add: demo_conf_simps low_metrics_def cell_height_A_def Ceil_def go_quot_def
        wrap64_def)

text \<open>
  C10 (as amended). In both variants, a run whose remaining command-line arguments are
  not empty reads no file and prints no item of the table. When the flag parser reports
  no error it ends with \<open>log.Fatal\<close>, exit status 1, and nothing on standard output;
  when the parser reports an error other than a help request it ends with exit status 1
  and nothing on standard output; when the parser reports a help request it ends with
  exit status 0, and standard output holds the help message the parser has printed.
\<close>

theorem additional_parameters_end_the_run:
  assumes "args \<noteq> []"
  shows "reads (main_B fsB bkB cB args err) = [] \<and>
         reads (main_A fsA bkA cA args err) = [] \<and>
         filter table_item (out (main_B fsB bkB cB args err)) = [] \<and>
         filter table_item (out (main_A fsA bkA cA args err)) = [] \<and>
         (err = None \<longrightarrow>
            main_B fsB bkB cB args err =
              \<lparr>out = [], reads = [], ending = Fatal AdditionalParameters\<rparr> \<and>
            main_A fsA bkA cA args err =
              \<lparr>out = [], reads = [], ending = Fatal AdditionalParameters\<rparr>) \<and>
         (err = Some ErrOther \<longrightarrow>
            main_B fsB bkB cB args err = \<lparr>out = [], reads = [], ending = Exit 1\<rparr> \<and>
            main_A fsA bkA cA args err = \<lparr>out = [], reads = [], ending = Exit 1\<rparr>) \<and>
         (err = Some (ErrHelp msg) \<longrightarrow>
            main_B fsB bkB cB args err = \<lparr>out = [HelpText msg], reads = [], ending = Exit 0\<rparr> \<and>
            main_A fsA bkA cA args err = \<lparr>out = [HelpText msg], reads = [], ending = Exit 0\<rparr>) \<and>
         exit_code (ending (main_B fsB bkB cB args err)) =
           (case err of Some (ErrHelp m) \<Rightarrow> 0 | _ \<Rightarrow> 1) \<and>
         exit_code (ending (main_A fsA bkA cA args err)) =
           (case err of Some (ErrHelp m) \<Rightarrow> 0 | _ \<Rightarrow> 1)"
  using assms
  by (cases err) (auto simp: main_B_def main_A_def split: flags_error.splits)

theorem additional_parameters_end_the_run_witness:
  "main_B demo_fs demo_bk demo_conf_B [''extra''] None =
     \<lparr>out = [], reads = [], ending = Fatal AdditionalParameters\<rparr> \<and>
   main_A demo_fs demo_bk demo_conf_A [''extra''] None =
     \<lparr>out = [], reads = [], ending = Fatal AdditionalParameters\<rparr> \<and>
   exit_code (ending (main_B demo_fs demo_bk demo_conf_B [''extra''] None)) = 1 \<and>
   main_B demo_fs demo_bk demo_conf_B [''extra''] (Some ErrOther) =
     \<lparr>out = [], reads = [], ending = Exit 1\<rparr> \<and>
   main_B demo_fs demo_bk demo_conf_B [''extra''] (Some (ErrHelp ''Usage'')) =
     \<lparr>out = [HelpText ''Usage''], reads = [], ending = Exit 0\<rparr>"
  using additional_parameters_end_the_run
      [of "[''extra'']" demo_fs demo_bk demo_conf_B None demo_fs demo_bk demo_conf_A]
    additional_parameters_end_the_run
      [of "[''extra'']" demo_fs demo_bk demo_conf_B "Some ErrOther" demo_fs demo_bk demo_conf_A]
    additional_parameters_end_the_run
      [of "[''extra'']" demo_fs demo_bk demo_conf_B "Some (ErrHelp ''Usage'')" demo_fs demo_bk
        demo_conf_A "''Usage''"]
  by simp

text \<open>
  C10 as stated fails for a help request: with a positional argument left over, the run
  ends with exit status 0.
\<close>

theorem help_with_parameters_counterexample:
  "ending (main_B demo_fs demo_bk demo_conf_B [''extra''] (Some (ErrHelp ''Usage''))) = Exit 0 \<and>
   exit_code (ending (main_B demo_fs demo_bk demo_conf_B [''extra''] (Some (ErrHelp ''Usage'')))) = 0 \<and>
   ending (main_A demo_fs demo_bk demo_conf_A [''extra''] (Some (ErrHelp ''Usage''))) = Exit 0 \<and>
   exit_code (ending (main_A demo_fs demo_bk demo_conf_A [''extra''] (Some (ErrHelp ''Usage'')))) = 0"
  by (simp add: main_B_def main_A_def)

end
